theory Spec2Isabelle
  imports Complex_Main "HOL-Library.Word" "HOL-Library.Monad_Syntax"
begin


section \<open>Number model\<close>

text \<open>
  The program computes in C \<open>float\<close>.  The embedding idealises a finite \<open>float\<close>
  as a \<open>real\<close> and every decimal constant of the source as the rational it
  denotes, so rounding to 24 bits is not modelled (but for the conversion of the
  loop counter of \<open>CubeHelix\<close>, in the last section of definitions).  What IEEE arithmetic does
  when a result is not a finite number is modelled: a division whose divisor
  is zero and a \<open>pow\<close> outside the domain where the result is finite give
  \<open>None\<close> (the C code continues with an infinity or a NaN), and every
  function that can meet such a value returns an \<open>option\<close>.
\<close>

definition fdiv :: "real \<Rightarrow> real \<Rightarrow> real option" where
  \<comment> \<open>\<open>a / b\<close> on floats: finite exactly when the divisor is not zero\<close>
  "fdiv a b = (if b = 0 then None else Some (a / b))"

definition fpow :: "real \<Rightarrow> real \<Rightarrow> real option" where
  \<comment> \<open>\<open>std::pow(x, y)\<close>: \<open>pow(x, 0) = 1\<close> for every \<open>x\<close>, \<open>pow(0, y) = 0\<close> for
      \<open>y > 0\<close>, \<open>pow(0, y)\<close> is infinite for \<open>y < 0\<close>; a negative base is finite
      for an integral exponent only\<close>
  "fpow x y =
     (if y = 0 then Some 1
      else if 0 < x then Some (x powr y)
      else if x = 0 then (if 0 < y then Some 0 else None)
      else if y = of_int \<lfloor>y\<rfloor> then Some (x powi \<lfloor>y\<rfloor>)
      else None)"

definition twopi :: real where
  "twopi = 2 * pi"

definition clamp :: "real \<Rightarrow> real \<Rightarrow> real \<Rightarrow> real" where
  "clamp x lo hi = min (max x lo) hi"

definition uchar_of_float :: "real \<Rightarrow> 8 word" where
  \<comment> \<open>conversion of a float in \<open>[0, 256)\<close> to \<open>unsigned char\<close>: the fraction is dropped\<close>
  "uchar_of_float x = word_of_int \<lfloor>x\<rfloor>"

section \<open>CubeHelix\<close>

text \<open>
  The body of the loop of \<open>CubeHelix\<close> up to the assignments of \<open>r\<close>, \<open>g\<close>
  and \<open>b\<close> (before the clamping).  Note that the source overwrites \<open>fract\<close>
  with \<open>pow(fract, gamma)\<close> before it computes \<open>amp\<close>.
\<close>

definition CubeHelix_rgb ::
    "int \<Rightarrow> int \<Rightarrow> real \<Rightarrow> real \<Rightarrow> real \<Rightarrow> real \<Rightarrow> (real \<times> real \<times> real) option" where
  "CubeHelix_rgb n i hue rot saturation gamma =
     (case fdiv (of_int i) (of_int n - 1) of
        None \<Rightarrow> None
      | Some fract0 \<Rightarrow>
          let angle = twopi * (hue / 3 + 1 + rot * fract0) in
          (case fpow fract0 gamma of
             None \<Rightarrow> None
           | Some fract \<Rightarrow>
               let amp = saturation * fract * (1 - fract) / 2;
                   s = sin angle;
                   c = cos angle;
                   r = fract + amp * (- 0.14861 * c + 1.78277 * s);
                   g = fract + amp * (- 0.29227 * c - 0.90649 * s);
                   b = fract + amp * (1.97294 * c)
               in Some (r, g, b)))"

definition clip_channel :: "real \<Rightarrow> bool \<Rightarrow> real \<times> bool" where
  \<comment> \<open>one \<open>if (x < 0) ... else if (x > 1) ...\<close> block: the channel and the flag \<open>clipped\<close>\<close>
  "clip_channel x clipped =
     (if x < 0 then (0, True) else if 1 < x then (1, True) else (x, clipped))"

definition CubeHelix_clip :: "real \<times> real \<times> real \<Rightarrow> (real \<times> real \<times> real) \<times> bool" where
  "CubeHelix_clip rgb =
     (case rgb of (r, g, b) \<Rightarrow>
        let clipped = False;
            (r', clipped) = clip_channel r clipped;
            (g', clipped) = clip_channel g clipped;
            (b', clipped) = clip_channel b clipped
        in ((r', g', b'), clipped))"

definition CubeHelix_bytes :: "real \<times> real \<times> real \<Rightarrow> 8 word list" where
  "CubeHelix_bytes rgb =
     (case rgb of (r, g, b) \<Rightarrow>
        [uchar_of_float (r * 255), uchar_of_float (g * 255), uchar_of_float (b * 255)])"

definition CubeHelix_entry ::
    "int \<Rightarrow> int \<Rightarrow> real \<Rightarrow> real \<Rightarrow> real \<Rightarrow> real \<Rightarrow> (8 word list \<times> bool) option" where
  \<comment> \<open>one pass through the body of the loop: the three bytes written and the flag \<open>clipped\<close>\<close>
  "CubeHelix_entry n i hue rot saturation gamma =
     (case CubeHelix_rgb n i hue rot saturation gamma of
        None \<Rightarrow> None
      | Some rgb \<Rightarrow>
          (case CubeHelix_clip rgb of (rgb', clipped) \<Rightarrow> Some (CubeHelix_bytes rgb', clipped)))"

text \<open>
  The loop, with the buffer \<open>colormap\<close> and the counter \<open>clippings\<close> as state.
  The source writes the bytes \<open>3 * i\<close>, \<open>3 * i + 1\<close>, \<open>3 * i + 2\<close> of a buffer of the
  caller in the order of \<open>i\<close>; the model appends them to the list of the bytes written
  so far.
\<close>

function CubeHelix_loop ::
    "int \<Rightarrow> int \<Rightarrow> real \<Rightarrow> real \<Rightarrow> real \<Rightarrow> real \<Rightarrow> 8 word list \<Rightarrow> int
      \<Rightarrow> (8 word list \<times> int) option" where
  "CubeHelix_loop n i hue rot saturation gamma colormap clippings =
     (if i < n then
        (case CubeHelix_entry n i hue rot saturation gamma of
           None \<Rightarrow> None
         | Some (bytes, clipped) \<Rightarrow>
             CubeHelix_loop n (i + 1) hue rot saturation gamma
               (colormap @ bytes)
               (if clipped then clippings + 1 else clippings))
      else Some (colormap, clippings))"
  by pat_completeness auto
termination
  by (relation "measure (\<lambda>(n, i, hue, rot, saturation, gamma, colormap, clippings). nat (n - i))")
    auto

declare CubeHelix_loop.simps [simp del]

definition CubeHelix ::
    "int \<Rightarrow> real \<Rightarrow> real \<Rightarrow> real \<Rightarrow> real \<Rightarrow> (8 word list \<times> int) option" where
  "CubeHelix n hue rot saturation gamma = CubeHelix_loop n 0 hue rot saturation gamma [] 0"


text \<open>
  The channels as the specification words them, for comparison with \<open>CubeHelix_rgb\<close>:
  the amplitude is taken from \<open>fract = i / (n - 1)\<close> itself.
\<close>

definition CubeHelix_rgb_claimed ::
    "int \<Rightarrow> int \<Rightarrow> real \<Rightarrow> real \<Rightarrow> real \<Rightarrow> real \<Rightarrow> real \<times> real \<times> real" where
  "CubeHelix_rgb_claimed n i hue rot saturation gamma =
     (let fract = of_int i / (of_int n - 1);
          angle = 2 * pi * (hue / 3 + 1 + rot * fract);
          amp = saturation * fract * (1 - fract) / 2;
          gray = fract powr gamma
      in (gray + amp * (- 0.14861 * cos angle + 1.78277 * sin angle),
          gray + amp * (- 0.29227 * cos angle - 0.90649 * sin angle),
          gray + amp * (1.97294 * cos angle)))"

section \<open>Further float operations\<close>

text \<open>
  A float division followed by \<open>clamp\<close> needs the sign of an infinite quotient:
  \<open>clamp\<close> maps \<open>+\<infinity>\<close> to its upper and \<open>-\<infinity>\<close> to its lower bound, and lets a NaN
  through (both comparisons of \<open>std::max\<close> and \<open>std::min\<close> are false on it).  An exact
  zero divisor is taken as \<open>+0\<close>, which is what a float subtraction with an exact
  zero result gives.
\<close>

datatype quotient = Finite real | PlusInf | MinusInf | NaN

definition fdiv_ext :: "real \<Rightarrow> real \<Rightarrow> quotient" where
  "fdiv_ext a b =
     (if b \<noteq> 0 then Finite (a / b)
      else if 0 < a then PlusInf else if a < 0 then MinusInf else NaN)"

definition clamp_ext :: "quotient \<Rightarrow> real \<Rightarrow> real \<Rightarrow> real option" where
  "clamp_ext q lo hi =
     (case q of
        Finite x \<Rightarrow> Some (clamp x lo hi)
      | PlusInf \<Rightarrow> Some hi
      | MinusInf \<Rightarrow> Some (min lo hi)
      | NaN \<Rightarrow> None)"

definition hypot :: "real \<Rightarrow> real \<Rightarrow> real" where
  "hypot x y = sqrt (x\<^sup>2 + y\<^sup>2)"

definition atan2 :: "real \<Rightarrow> real \<Rightarrow> real" where
  \<comment> \<open>\<open>std::atan2(y, x)\<close>, the angle of the point \<open>(x, y)\<close> in \<open>(-\<pi>, \<pi>]\<close>; 0 at the origin\<close>
  "atan2 y x =
     (if 0 < x then arctan (y / x)
      else if x < 0 then (if 0 \<le> y then arctan (y / x) + pi else arctan (y / x) - pi)
      else if 0 < y then pi / 2
      else if y < 0 then - (pi / 2)
      else 0)"

definition fmod :: "real \<Rightarrow> real \<Rightarrow> real" where
  \<comment> \<open>\<open>std::fmod(x, y)\<close> for \<open>y \<noteq> 0\<close>: \<open>x - y * trunc(x / y)\<close>, with the sign of \<open>x\<close>\<close>
  "fmod x y = x - y * of_int (if 0 \<le> x / y then \<lfloor>x / y\<rfloor> else \<lceil>x / y\<rceil>)"

definition fround :: "real \<Rightarrow> real" where
  \<comment> \<open>\<open>std::round\<close>: to the nearest integer, halves away from zero\<close>
  "fround x = of_int (if 0 \<le> x then \<lfloor>x + 1 / 2\<rfloor> else \<lceil>x - 1 / 2\<rceil>)"

section \<open>XYZ, LUV and LCH\<close>

definition u_prime :: "real \<Rightarrow> real \<Rightarrow> real \<Rightarrow> real option" where
  "u_prime x y z = fdiv (4 * x) (x + 15 * y + 3 * z)"

definition v_prime :: "real \<Rightarrow> real \<Rightarrow> real \<Rightarrow> real option" where
  "v_prime x y z = fdiv (9 * y) (x + 15 * y + 3 * z)"

definition d65_x :: real where "d65_x = 95.047"
definition d65_y :: real where "d65_y = 100.000"
definition d65_z :: real where "d65_z = 108.883"

text \<open>
  The two static constants \<open>d65_u_prime\<close> and \<open>d65_v_prime\<close> are the values of
  \<open>u_prime\<close> and \<open>v_prime\<close> at the white point, where the divisor is not zero
  (lemma \<open>d65_prime\<close> below).
\<close>

definition d65_u_prime :: real where
  "d65_u_prime = 4 * d65_x / (d65_x + 15 * d65_y + 3 * d65_z)"

definition d65_v_prime :: real where
  "d65_v_prime = 9 * d65_y / (d65_x + 15 * d65_y + 3 * d65_z)"

definition lch_saturation :: "real \<Rightarrow> real \<Rightarrow> real" where
  "lch_saturation l c = c / max l (1 / 10 ^ 8)"

definition lch_chroma :: "real \<Rightarrow> real \<Rightarrow> real" where
  "lch_chroma l s = s * l"

definition lch_to_luv :: "real \<Rightarrow> real \<Rightarrow> real \<times> real" where
  "lch_to_luv c h = (c * cos h, c * sin h)"

definition luv_to_lch :: "real \<Rightarrow> real \<Rightarrow> real \<times> real" where
  "luv_to_lch u v =
     (let c = hypot u v;
          h = atan2 v u;
          h = (if h < 0 then h + twopi else h)
      in (c, h))"

definition luv_saturation :: "real \<Rightarrow> real \<Rightarrow> real \<Rightarrow> real" where
  "luv_saturation l u v = lch_saturation l (hypot u v)"

definition luv_to_xyz :: "real \<Rightarrow> real \<Rightarrow> real \<Rightarrow> (real \<times> real \<times> real) option" where
  "luv_to_xyz l u v =
     do {
       du \<leftarrow> fdiv u (13 * l);
       dv \<leftarrow> fdiv v (13 * l);
       let u_prime = du + d65_u_prime;
       let v_prime = dv + d65_v_prime;
       let y = (if l \<le> 8 then d65_y * l * (3 * 3 * 3 / (29 * 29 * 29))
                else (let tmp = (l + 16) / 116 in d65_y * tmp * tmp * tmp));
       x \<leftarrow> fdiv (y * (9 * u_prime)) (4 * v_prime);
       z \<leftarrow> fdiv (y * (12 - 3 * u_prime - 20 * v_prime)) (4 * v_prime);
       Some (x, y, z)
     }"

definition xyz_to_luv :: "real \<Rightarrow> real \<Rightarrow> real \<Rightarrow> (real \<times> real \<times> real) option" where
  "xyz_to_luv x y z =
     (let y_ratio = y / d65_y;
          l = (if y_ratio \<le> (6 * 6 * 6) / (29 * 29 * 29)
               then (29 * 29 * 29) / (3 * 3 * 3) * y_ratio
               else 116 * root 3 y_ratio - 16)
      in do {
        up \<leftarrow> u_prime x y z;
        vp \<leftarrow> v_prime x y z;
        Some (l, 13 * l * (up - d65_u_prime), 13 * l * (vp - d65_v_prime))
      })"

section \<open>RGB and sRGB\<close>

definition rgb_to_xyz :: "real \<Rightarrow> real \<Rightarrow> real \<Rightarrow> real \<times> real \<times> real" where
  "rgb_to_xyz r g b =
     ((0.4124 * r + 0.3576 * g + 0.1805 * b) * 100,
      (0.2126 * r + 0.7152 * g + 0.0722 * b) * 100,
      (0.0193 * r + 0.1192 * g + 0.9505 * b) * 100)"

definition xyz_to_rgb :: "real \<Rightarrow> real \<Rightarrow> real \<Rightarrow> real \<times> real \<times> real" where
  "xyz_to_rgb x y z =
     (clamp ((3.2406255 * x - 1.5372080 * y - 0.4986286 * z) / 100) 0 1,
      clamp ((- 0.9689307 * x + 1.8757561 * y + 0.0415175 * z) / 100) 0 1,
      clamp ((0.0557101 * x - 0.2040211 * y + 1.0569959 * z) / 100) 0 1)"

text \<open>
  In both helpers \<open>std::pow\<close> is reached with a positive base only, where it is
  \<open>powr\<close>.
\<close>

definition rgb_to_srgb_helper :: "real \<Rightarrow> real" where
  "rgb_to_srgb_helper x =
     (if x \<le> 0.0031308 then x * 12.92 else 1.055 * x powr (1 / 2.4) - 0.055)"

definition rgb_to_srgb :: "real \<Rightarrow> real \<Rightarrow> real \<Rightarrow> real \<times> real \<times> real" where
  "rgb_to_srgb r g b = (rgb_to_srgb_helper r, rgb_to_srgb_helper g, rgb_to_srgb_helper b)"

definition srgb_to_rgb_helper :: "real \<Rightarrow> real" where
  "srgb_to_rgb_helper x =
     (if x \<le> 0.04045 then x / 12.92 else ((x + 0.055) / 1.055) powr 2.4)"

definition srgb_to_rgb :: "real \<Rightarrow> real \<Rightarrow> real \<Rightarrow> real \<times> real \<times> real" where
  "srgb_to_rgb sr sg sb = (srgb_to_rgb_helper sr, srgb_to_rgb_helper sg, srgb_to_rgb_helper sb)"

section \<open>LUV colours\<close>

text \<open>The struct \<open>LUVColor\<close>; its fields \<open>l\<close>, \<open>u\<close>, \<open>v\<close> carry a prefix here.\<close>

record LUVColor =
  luv_l :: real
  luv_u :: real
  luv_v :: real

definition luv_plus :: "LUVColor \<Rightarrow> LUVColor \<Rightarrow> LUVColor" where
  \<comment> \<open>\<open>operator+\<close>\<close>
  "luv_plus a b = \<lparr>luv_l = luv_l a + luv_l b, luv_u = luv_u a + luv_u b, luv_v = luv_v a + luv_v b\<rparr>"

definition luv_times :: "real \<Rightarrow> LUVColor \<Rightarrow> LUVColor" where
  \<comment> \<open>\<open>operator*\<close>\<close>
  "luv_times a b = \<lparr>luv_l = a * luv_l b, luv_u = a * luv_u b, luv_v = a * luv_v b\<rparr>"

definition srgb_to_lch_hue :: "real \<Rightarrow> real \<Rightarrow> real \<Rightarrow> real option" where
  "srgb_to_lch_hue sr sg sb =
     (case srgb_to_rgb sr sg sb of (r, g, b) \<Rightarrow>
      case rgb_to_xyz r g b of (x, y, z) \<Rightarrow>
        do {
          (l, u, v) \<leftarrow> xyz_to_luv x y z;
          let (c, h) = luv_to_lch u v;
          Some h
        })"

section \<open>The gamut boundary\<close>

definition corner_hues :: "real option list" where
  \<comment> \<open>the static array \<open>h\<close> of \<open>most_saturated_in_srgb\<close>\<close>
  "corner_hues =
     [srgb_to_lch_hue 1 0 0,
      srgb_to_lch_hue 1 1 0,
      srgb_to_lch_hue 0 1 0,
      srgb_to_lch_hue 0 1 1,
      srgb_to_lch_hue 0 0 1,
      srgb_to_lch_hue 1 0 1]"

definition sector :: "real list \<Rightarrow> real \<Rightarrow> nat \<times> nat \<times> nat" where
  \<comment> \<open>the chain of comparisons that sets \<open>i\<close>, \<open>j\<close> and \<open>k\<close>\<close>
  "sector h hue =
     (if hue < h ! 0 then (2, 1, 0)
      else if hue < h ! 1 then (1, 2, 0)
      else if hue < h ! 2 then (0, 2, 1)
      else if hue < h ! 3 then (2, 0, 1)
      else if hue < h ! 4 then (1, 0, 2)
      else if hue < h ! 5 then (0, 1, 2)
      else (2, 1, 0))"

definition M :: "real list list" where
  "M = [[0.4124, 0.3576, 0.1805],
        [0.2126, 0.7152, 0.0722],
        [0.0193, 0.1192, 0.9505]]"

text \<open>
  The expression that the source writes out twice, for \<open>q0\<close> (column \<open>k\<close>) and for
  \<open>q1\<close> (column \<open>i\<close>), as a function of \<open>sin hue\<close>, \<open>cos hue\<close> and the column; used
  in the proofs only (lemma \<open>most_saturated_srgb_q\<close>).
\<close>

definition q_of :: "real \<Rightarrow> real \<Rightarrow> nat \<Rightarrow> real" where
  "q_of s c k = (- s * d65_u_prime + c * d65_v_prime) * (M ! 0 ! k + 15 * M ! 1 ! k + 3 * M ! 2 ! k)
                  - (4 * (- s) * M ! 0 ! k + 9 * c * M ! 1 ! k)"

definition most_saturated_srgb :: "real \<Rightarrow> real list option" where
  \<comment> \<open>\<open>most_saturated_in_srgb\<close> up to the array \<open>srgb\<close>; the array is not initialised
      in the source and all three of its cells are assigned\<close>
  "most_saturated_srgb hue =
     (case corner_hues of
        [Some h0, Some h1, Some h2, Some h3, Some h4, Some h5] \<Rightarrow>
          (case sector [h0, h1, h2, h3, h4, h5] hue of (i, j, k) \<Rightarrow>
             let alpha = - sin hue;
                 beta = cos hue;
                 T = alpha * d65_u_prime + beta * d65_v_prime;
                 q0 = T * (M ! 0 ! k + 15 * M ! 1 ! k + 3 * M ! 2 ! k)
                        - (4 * alpha * M ! 0 ! k + 9 * beta * M ! 1 ! k);
                 q1 = T * (M ! 0 ! i + 15 * M ! 1 ! i + 3 * M ! 2 ! i)
                        - (4 * alpha * M ! 0 ! i + 9 * beta * M ! 1 ! i)
             in do {
               c \<leftarrow> clamp_ext (fdiv_ext (- q0) q1) 0 1;
               Some ([0, 0, 0][j := 0, k := 1, i := rgb_to_srgb_helper c])
             })
      | _ \<Rightarrow> None)"

definition most_saturated_in_srgb :: "real \<Rightarrow> LUVColor option" where
  "most_saturated_in_srgb hue =
     do {
       srgb \<leftarrow> most_saturated_srgb hue;
       let (r, g, b) = srgb_to_rgb (srgb ! 0) (srgb ! 1) (srgb ! 2);
       let (x, y, z) = rgb_to_xyz r g b;
       (l, u, v) \<leftarrow> xyz_to_luv x y z;
       Some \<lparr>luv_l = l, luv_u = u, luv_v = v\<rparr>
     }"

definition Smax :: "real \<Rightarrow> real \<Rightarrow> real option" where
  "Smax l h =
     do {
       pmid \<leftarrow> most_saturated_in_srgb h;
       let pend = \<lparr>luv_l = (if luv_l pmid < l then 100 else 0), luv_u = 0, luv_v = 0\<rparr>;
       alpha \<leftarrow> fdiv (luv_l pend - l) (luv_l pend - luv_l pmid);
       let pmids = luv_saturation (luv_l pmid) (luv_u pmid) (luv_v pmid);
       let pends = luv_saturation (luv_l pend) (luv_u pend) (luv_v pend);
       Some (alpha * (pmids - pends) + pends)
     }"

definition get_bright_point :: "LUVColor option" where
  \<comment> \<open>the static \<open>pb\<close>, computed at the first call\<close>
  "get_bright_point =
     (case rgb_to_xyz 1 1 0 of (x, y, z) \<Rightarrow>
        do {
          (l, u, v) \<leftarrow> xyz_to_luv x y z;
          Some \<lparr>luv_l = l, luv_u = u, luv_v = v\<rparr>
        })"

definition mix_hue :: "real \<Rightarrow> real \<Rightarrow> real \<Rightarrow> real" where
  "mix_hue alpha h0 h1 =
     (let M = fmod (pi + h1 - h0) twopi - pi
      in fmod (h0 + alpha * M) twopi)"

section \<open>The Bezier profile\<close>

text \<open>The six colours that \<open>get_color_points\<close> returns through its pointer arguments.\<close>

record color_points =
  cp_p0 :: LUVColor
  cp_p1 :: LUVColor
  cp_p2 :: LUVColor
  cp_q0 :: LUVColor
  cp_q1 :: LUVColor
  cp_q2 :: LUVColor

definition get_color_points ::
    "real \<Rightarrow> real \<Rightarrow> real \<Rightarrow> LUVColor \<Rightarrow> real \<Rightarrow> real \<Rightarrow> color_points option" where
  "get_color_points hue saturation warmth pb pb_hue pb_saturation =
     (let (p0u, p0v) = lch_to_luv 0 hue;
          p0 = \<lparr>luv_l = 0, luv_u = p0u, luv_v = p0v\<rparr>
      in do {
        p1 \<leftarrow> most_saturated_in_srgb hue;
        let p2l = (1 - warmth) * 100 + warmth * luv_l pb;
        let p2h = mix_hue warmth hue pb_hue;
        smax \<leftarrow> Smax p2l p2h;
        let p2c = lch_chroma p2l (min smax (warmth * saturation * pb_saturation));
        let (p2u, p2v) = lch_to_luv p2c p2h;
        let p2 = \<lparr>luv_l = p2l, luv_u = p2u, luv_v = p2v\<rparr>;
        let q0 = luv_plus (luv_times (1 - saturation) p0) (luv_times saturation p1);
        let q2 = luv_plus (luv_times (1 - saturation) p2) (luv_times saturation p1);
        let q1 = luv_times 0.5 (luv_plus q0 q2);
        Some \<lparr>cp_p0 = p0, cp_p1 = p1, cp_p2 = p2, cp_q0 = q0, cp_q1 = q1, cp_q2 = q2\<rparr>
      })"

definition B :: "LUVColor \<Rightarrow> LUVColor \<Rightarrow> LUVColor \<Rightarrow> real \<Rightarrow> LUVColor" where
  "B b0 b1 b2 t =
     (let a = (1 - t) * (1 - t);
          b = 2 * (1 - t) * t;
          c = t * t
      in luv_plus (luv_plus (luv_times a b0) (luv_times b b1)) (luv_times c b2))"

definition invB :: "real \<Rightarrow> real \<Rightarrow> real \<Rightarrow> real \<Rightarrow> real option" where
  "invB b0 b1 b2 v =
     fdiv (b0 - b1 + sqrt (max (b1 * b1 - b0 * b2 + (b0 - 2 * b1 + b2) * v) 0))
          (b0 - 2 * b1 + b2)"

definition target_lightness :: "real \<Rightarrow> real \<Rightarrow> real \<Rightarrow> real" where
  \<comment> \<open>the local \<open>l\<close> of \<open>get_colormap_entry\<close>; the base of \<open>std::pow\<close> is \<open>0.2\<close>\<close>
  "target_lightness t contrast brightness =
     125 - 125 * 0.2 powr ((1 - contrast) * brightness + t * contrast)"

definition get_colormap_entry ::
    "real \<Rightarrow> LUVColor \<Rightarrow> LUVColor \<Rightarrow> LUVColor \<Rightarrow> LUVColor \<Rightarrow> LUVColor \<Rightarrow> real \<Rightarrow> real
      \<Rightarrow> LUVColor option" where
  "get_colormap_entry t p0 p2 q0 q1 q2 contrast brightness =
     (let l = target_lightness t contrast brightness
      in do {
        T \<leftarrow> (if l \<le> luv_l q1
              then do { x \<leftarrow> invB (luv_l p0) (luv_l q0) (luv_l q1) l; Some (0.5 * x) }
              else do { x \<leftarrow> invB (luv_l q1) (luv_l q2) (luv_l p2) l; Some (0.5 * x + 0.5) });
        Some (if T \<le> 0.5 then B p0 q0 q1 (2 * T) else B q1 q2 p2 (2 * (T - 0.5)))
      })"

definition convert_colormap_entry :: "LUVColor \<Rightarrow> 8 word list option" where
  "convert_colormap_entry color =
     do {
       (x, y, z) \<leftarrow> luv_to_xyz (luv_l color) (luv_u color) (luv_v color);
       let (r, g, b) = xyz_to_rgb x y z;
       let (sr, sg, sb) = rgb_to_srgb r g b;
       Some [uchar_of_float (fround (sr * 255)),
             uchar_of_float (fround (sg * 255)),
             uchar_of_float (fround (sb * 255))]
     }"

section \<open>The Brewer-like generators\<close>

text \<open>
  The part of each generator before its loop, which all three entries of a map share:
  the bright point, its hue and saturation, and the colour points.
\<close>

definition bright_point_lch :: "(LUVColor \<times> real \<times> real) option" where
  \<comment> \<open>\<open>pb\<close>, \<open>pbh\<close> and \<open>pbs\<close>\<close>
  "bright_point_lch =
     do {
       pb \<leftarrow> get_bright_point;
       let (pbc, pbh) = luv_to_lch (luv_u pb) (luv_v pb);
       let pbs = lch_saturation (luv_l pb) pbc;
       Some (pb, pbh, pbs)
     }"

definition BrewerSequential_color ::
    "int \<Rightarrow> int \<Rightarrow> color_points \<Rightarrow> real \<Rightarrow> real \<Rightarrow> LUVColor option" where
  \<comment> \<open>the colour \<open>c\<close> of the pass \<open>i\<close> of the loop\<close>
  "BrewerSequential_color n i cp contrast brightness =
     do {
       t \<leftarrow> fdiv (of_int (n - 1 - i)) (of_int n - 1);
       get_colormap_entry t (cp_p0 cp) (cp_p2 cp) (cp_q0 cp) (cp_q1 cp) (cp_q2 cp) contrast brightness
     }"

function BrewerSequential_loop ::
    "int \<Rightarrow> int \<Rightarrow> color_points \<Rightarrow> real \<Rightarrow> real \<Rightarrow> 8 word list \<Rightarrow> 8 word list option" where
  "BrewerSequential_loop n i cp contrast brightness colormap =
     (if i < n then
        do {
          c \<leftarrow> BrewerSequential_color n i cp contrast brightness;
          bytes \<leftarrow> convert_colormap_entry c;
          BrewerSequential_loop n (i + 1) cp contrast brightness (colormap @ bytes)
        }
      else Some colormap)"
  by pat_completeness auto
termination
  by (relation "measure (\<lambda>(n, i, cp, contrast, brightness, colormap). nat (n - i))") auto

declare BrewerSequential_loop.simps [simp del]

definition BrewerSequential ::
    "int \<Rightarrow> real \<Rightarrow> real \<Rightarrow> real \<Rightarrow> real \<Rightarrow> real \<Rightarrow> 8 word list option" where
  "BrewerSequential n hue contrast saturation brightness warmth =
     do {
       (pb, pbh, pbs) \<leftarrow> bright_point_lch;
       cp \<leftarrow> get_color_points hue saturation warmth pb pbh pbs;
       BrewerSequential_loop n 0 cp contrast brightness []
     }"

text \<open>
  \<open>BrewerDiverging\<close>.  The source tests \<open>n % 2 == 1\<close> and \<open>i == n / 2\<close> inside the loop,
  where \<open>0 \<le> i < n\<close>, so that C's truncating division agrees with \<open>div\<close> and \<open>mod\<close>.
\<close>

definition BrewerDiverging_color ::
    "int \<Rightarrow> int \<Rightarrow> color_points \<Rightarrow> color_points \<Rightarrow> real \<Rightarrow> real \<Rightarrow> real \<Rightarrow> real
      \<Rightarrow> LUVColor option" where
  "BrewerDiverging_color n i cp0 cp1 pbh contrast brightness warmth =
     (if n mod 2 = 1 \<and> i = n div 2 then
        do {
          c0 \<leftarrow> get_colormap_entry 1 (cp_p0 cp0) (cp_p2 cp0) (cp_q0 cp0) (cp_q1 cp0) (cp_q2 cp0) contrast brightness;
          c1 \<leftarrow> get_colormap_entry 1 (cp_p0 cp1) (cp_p2 cp1) (cp_q0 cp1) (cp_q1 cp1) (cp_q2 cp1) contrast brightness;
          if n \<le> 9 then
            do {
              let c0s = luv_saturation (luv_l c0) (luv_u c0) (luv_v c0);
              let c1s = luv_saturation (luv_l c1) (luv_u c1) (luv_v c1);
              let sn = 0.5 * (c0s + c1s) * warmth;
              let cl = 0.5 * (luv_l c0 + luv_l c1);
              smax \<leftarrow> Smax cl pbh;
              let cc = lch_chroma cl (min smax sn);
              let (cu, cv) = lch_to_luv cc pbh;
              Some \<lparr>luv_l = cl, luv_u = cu, luv_v = cv\<rparr>
            }
          else Some (luv_times 0.5 (luv_plus c0 c1))
        }
      else
        do {
          t \<leftarrow> fdiv (of_int i) (of_int n - 1);
          if i < n div 2 then
            (let tt = 2 * t
             in get_colormap_entry tt (cp_p0 cp0) (cp_p2 cp0) (cp_q0 cp0) (cp_q1 cp0) (cp_q2 cp0) contrast brightness)
          else
            (let tt = 2 * (1 - t)
             in get_colormap_entry tt (cp_p0 cp1) (cp_p2 cp1) (cp_q0 cp1) (cp_q1 cp1) (cp_q2 cp1) contrast brightness)
        })"

function BrewerDiverging_loop ::
    "int \<Rightarrow> int \<Rightarrow> color_points \<Rightarrow> color_points \<Rightarrow> real \<Rightarrow> real \<Rightarrow> real \<Rightarrow> real
      \<Rightarrow> 8 word list \<Rightarrow> 8 word list option" where
  "BrewerDiverging_loop n i cp0 cp1 pbh contrast brightness warmth colormap =
     (if i < n then
        do {
          c \<leftarrow> BrewerDiverging_color n i cp0 cp1 pbh contrast brightness warmth;
          bytes \<leftarrow> convert_colormap_entry c;
          BrewerDiverging_loop n (i + 1) cp0 cp1 pbh contrast brightness warmth (colormap @ bytes)
        }
      else Some colormap)"
  by pat_completeness auto
termination
  by (relation "measure (\<lambda>(n, i, cp0, cp1, pbh, contrast, brightness, warmth, colormap). nat (n - i))")
    auto

declare BrewerDiverging_loop.simps [simp del]

definition BrewerDiverging_points ::
    "real \<Rightarrow> real \<Rightarrow> real \<Rightarrow> real \<Rightarrow> (color_points \<times> color_points \<times> real) option" where
  \<comment> \<open>the part of \<open>BrewerDiverging\<close> before the loop: both profiles and \<open>pbh\<close>\<close>
  "BrewerDiverging_points hue divergence saturation warmth =
     (let hue1 = hue + divergence;
          hue1 = (if twopi \<le> hue1 then hue1 - twopi else hue1)
      in do {
        (pb, pbh, pbs) \<leftarrow> bright_point_lch;
        cp0 \<leftarrow> get_color_points hue saturation warmth pb pbh pbs;
        cp1 \<leftarrow> get_color_points hue1 saturation warmth pb pbh pbs;
        Some (cp0, cp1, pbh)
      })"

definition BrewerDiverging ::
    "int \<Rightarrow> real \<Rightarrow> real \<Rightarrow> real \<Rightarrow> real \<Rightarrow> real \<Rightarrow> real \<Rightarrow> 8 word list option" where
  "BrewerDiverging n hue divergence contrast saturation brightness warmth =
     do {
       (cp0, cp1, pbh) \<leftarrow> BrewerDiverging_points hue divergence saturation warmth;
       BrewerDiverging_loop n 0 cp0 cp1 pbh contrast brightness warmth []
     }"

definition HueDiff :: "real \<Rightarrow> real \<Rightarrow> real" where
  "HueDiff h0 h1 = (let t = \<bar>h1 - h0\<bar> in if t < pi then t else twopi - t)"

definition yellow_lh :: "(real \<times> real) option" where
  \<comment> \<open>the statics \<open>yl\<close> and \<open>yh\<close> of \<open>BrewerQualitative\<close>\<close>
  "yellow_lh =
     (case rgb_to_xyz 1 1 0 of (yx, yy, yz) \<Rightarrow>
        do {
          (yl, yu, yv) \<leftarrow> xyz_to_luv yx yy yz;
          let (yc, yh) = luv_to_lch yu yv;
          Some (yl, yh)
        })"

definition red_saturation :: "real option" where
  \<comment> \<open>the static \<open>rs\<close> of \<open>BrewerQualitative\<close>\<close>
  "red_saturation =
     (case rgb_to_xyz 1 0 0 of (rx, ry, rz) \<Rightarrow>
        do {
          (rl, ru, rv) \<leftarrow> xyz_to_luv rx ry rz;
          Some (luv_saturation rl ru rv)
        })"

definition BrewerQualitative_color ::
    "int \<Rightarrow> int \<Rightarrow> real \<Rightarrow> real \<Rightarrow> real \<Rightarrow> real \<Rightarrow> real \<Rightarrow> real \<Rightarrow> real
      \<Rightarrow> LUVColor option" where
  \<comment> \<open>the colour \<open>c\<close> of the pass \<open>i\<close> of the loop; \<open>eps\<close>, \<open>r\<close>, \<open>l0\<close> and \<open>l1\<close> are the
      parameters derived before the loop\<close>
  "BrewerQualitative_color n i yh rs eps r l0 l1 saturation =
     do {
       t \<leftarrow> fdiv (of_int i) (of_int n - 1);
       let ch = fmod (twopi * (eps + t * r)) twopi;
       let alpha = HueDiff ch yh / pi;
       let cl = (1 - alpha) * l0 + alpha * l1;
       smax \<leftarrow> Smax cl ch;
       let cs = min smax (saturation * rs);
       let (cu, cv) = lch_to_luv (lch_chroma cl cs) ch;
       Some \<lparr>luv_l = cl, luv_u = cu, luv_v = cv\<rparr>
     }"

function BrewerQualitative_loop ::
    "int \<Rightarrow> int \<Rightarrow> real \<Rightarrow> real \<Rightarrow> real \<Rightarrow> real \<Rightarrow> real \<Rightarrow> real \<Rightarrow> real
      \<Rightarrow> 8 word list \<Rightarrow> 8 word list option" where
  "BrewerQualitative_loop n i yh rs eps r l0 l1 saturation colormap =
     (if i < n then
        do {
          c \<leftarrow> BrewerQualitative_color n i yh rs eps r l0 l1 saturation;
          bytes \<leftarrow> convert_colormap_entry c;
          BrewerQualitative_loop n (i + 1) yh rs eps r l0 l1 saturation (colormap @ bytes)
        }
      else Some colormap)"
  by pat_completeness auto
termination
  by (relation "measure (\<lambda>(n, i, yh, rs, eps, r, l0, l1, saturation, colormap). nat (n - i))")
    auto

declare BrewerQualitative_loop.simps [simp del]

definition BrewerQualitative ::
    "int \<Rightarrow> real \<Rightarrow> real \<Rightarrow> real \<Rightarrow> real \<Rightarrow> real \<Rightarrow> 8 word list option" where
  "BrewerQualitative n hue divergence contrast saturation brightness =
     do {
       (yl, yh) \<leftarrow> yellow_lh;
       rs \<leftarrow> red_saturation;
       let eps = hue / twopi;
       let r = divergence / twopi;
       let l0 = brightness * yl;
       let l1 = (1 - contrast) * l0;
       BrewerQualitative_loop n 0 yh rs eps r l0 l1 saturation []
     }"

section \<open>The colour of one entry, from the parameters of the generator\<close>

text \<open>
  The LUV colour that the pass \<open>i\<close> of the loop hands to \<open>convert_colormap_entry\<close>,
  as a function of the arguments of the generator: the part before the loop, then the
  body of the loop.
\<close>

definition BrewerSequential_entry ::
    "int \<Rightarrow> int \<Rightarrow> real \<Rightarrow> real \<Rightarrow> real \<Rightarrow> real \<Rightarrow> real \<Rightarrow> LUVColor option" where
  "BrewerSequential_entry n i hue contrast saturation brightness warmth =
     do {
       (pb, pbh, pbs) \<leftarrow> bright_point_lch;
       cp \<leftarrow> get_color_points hue saturation warmth pb pbh pbs;
       BrewerSequential_color n i cp contrast brightness
     }"

definition BrewerDiverging_entry ::
    "int \<Rightarrow> int \<Rightarrow> real \<Rightarrow> real \<Rightarrow> real \<Rightarrow> real \<Rightarrow> real \<Rightarrow> real \<Rightarrow> LUVColor option" where
  "BrewerDiverging_entry n i hue divergence contrast saturation brightness warmth =
     do {
       (cp0, cp1, pbh) \<leftarrow> BrewerDiverging_points hue divergence saturation warmth;
       BrewerDiverging_color n i cp0 cp1 pbh contrast brightness warmth
     }"

text \<open>
  The middle entry of \<open>BrewerDiverging\<close> as the specification words it, for comparison
  with \<open>BrewerDiverging_entry\<close>: for \<open>n \<le> 9\<close> the hue of the bright point, the average of
  the two lightnesses, and the average of the two saturations capped by \<open>Smax\<close>; for
  larger \<open>n\<close> the average of the two colours.
\<close>

definition BrewerDiverging_middle_claimed ::
    "int \<Rightarrow> real \<Rightarrow> real \<Rightarrow> real \<Rightarrow> real \<Rightarrow> real \<Rightarrow> real \<Rightarrow> LUVColor option" where
  "BrewerDiverging_middle_claimed n hue divergence contrast saturation brightness warmth =
     do {
       (cp0, cp1, pbh) \<leftarrow> BrewerDiverging_points hue divergence saturation warmth;
       c0 \<leftarrow> get_colormap_entry 1 (cp_p0 cp0) (cp_p2 cp0) (cp_q0 cp0) (cp_q1 cp0) (cp_q2 cp0) contrast brightness;
       c1 \<leftarrow> get_colormap_entry 1 (cp_p0 cp1) (cp_p2 cp1) (cp_q0 cp1) (cp_q1 cp1) (cp_q2 cp1) contrast brightness;
       if n \<le> 9 then
         do {
           let cl = (luv_l c0 + luv_l c1) / 2;
           let sn = (luv_saturation (luv_l c0) (luv_u c0) (luv_v c0)
                       + luv_saturation (luv_l c1) (luv_u c1) (luv_v c1)) / 2;
           smax \<leftarrow> Smax cl pbh;
           let cc = cl * min smax sn;
           Some \<lparr>luv_l = cl, luv_u = cc * cos pbh, luv_v = cc * sin pbh\<rparr>
         }
       else Some (luv_times 0.5 (luv_plus c0 c1))
     }"

section \<open>The lightness of an entry as a function of the target lightness\<close>

text \<open>
  A closed form, used in the proofs, of the lightness of the colour that
  \<open>get_colormap_entry\<close> returns when the lightnesses of the control points are
  \<open>0 \<le> Q0 \<le> Q1 \<le> Q2 \<le> P2\<close> and the target lightness is \<open>l\<close> (lemma
  \<open>get_colormap_entry_lightness\<close>): the target itself, cut off at the extremum of the
  parabola where \<open>invB\<close> clamps the discriminant at 0.
\<close>

definition entry_lightness :: "real \<Rightarrow> real \<Rightarrow> real \<Rightarrow> real \<Rightarrow> real \<Rightarrow> real" where
  "entry_lightness Q0 Q1 Q2 P2 l =
     (if l \<le> Q1 then (if 0 < Q1 - 2 * Q0 then max l (- (Q0 * Q0) / (Q1 - 2 * Q0)) else l)
      else (if 0 \<le> Q1 - 2 * Q2 + P2 then l
            else min l ((Q1 * P2 - Q2 * Q2) / (Q1 - 2 * Q2 + P2))))"

section \<open>CubeHelix with the loop counter converted to binary32\<close>

text \<open>
  The first statement of the body of the loop of \<open>CubeHelix\<close> is
  \<open>float fract = i / (n - 1.0f)\<close>: the \<open>int\<close> values \<open>n\<close> and \<open>i\<close> are converted to
  \<open>float\<close>, and the subtraction and the division are those of \<open>float\<close>.  Up to
  \<open>2\<^sup>2\<^sup>4\<close> the conversions and the subtraction are exact; above, they round.  The
  definitions of this section write out the rounding of this one statement and keep
  the rest of the body as in \<open>CubeHelix_rgb\<close>.

  \<open>float_round\<close> is the binary32 number nearest to a real, ties to the even
  significand, for a real in the normal range of binary32 (a magnitude from
  \<open>2\<^sup>-\<^sup>1\<^sup>2\<^sup>6\<close> up to the largest float), where the values of this statement lie:
  integers below \<open>2\<^sup>3\<^sup>1\<close> and their quotients.
\<close>

definition round_half_even :: "real \<Rightarrow> int" where
  "round_half_even x =
     (let f = \<lfloor>x\<rfloor>; d = x - of_int f
      in if d < 1 / 2 then f else if 1 / 2 < d then f + 1 else if even f then f else f + 1)"







section \<open>CubeHelix: the loop and its entries\<close>

lemma CubeHelix_entry_Some:
  assumes "CubeHelix_rgb n i hue rot sat gamma = Some (r, g, b)"
  shows "CubeHelix_entry n i hue rot sat gamma =
     Some ([uchar_of_float (clamp r 0 1 * 255), uchar_of_float (clamp g 0 1 * 255),
            uchar_of_float (clamp b 0 1 * 255)],
           \<not> (0 \<le> r \<and> r \<le> 1 \<and> 0 \<le> g \<and> g \<le> 1 \<and> 0 \<le> b \<and> b \<le> 1))"
  using assms
  by (auto simp add: CubeHelix_entry_def CubeHelix_clip_def clip_channel_def CubeHelix_bytes_def
      clamp_def Let_def)

lemma CubeHelix_rgb_defined:
  assumes "2 \<le> n" "0 \<le> i" "0 \<le> gamma"
  shows "\<exists>r g b. CubeHelix_rgb n i hue rot sat gamma = Some (r, g, b)"
  using assms
  by (auto simp add: CubeHelix_rgb_def fdiv_def fpow_def Let_def)

text \<open>
  When every pass of the body yields finite channels, the loop appends the bytes of
  the entries \<open>i, ..., n - 1\<close> in order and adds one to the counter for each entry
  whose flag \<open>clipped\<close> is set.
\<close>

lemma CubeHelix_loop_run:
  assumes "\<forall>j. i \<le> j \<and> j < n \<longrightarrow> CubeHelix_entry n j hue rot sat gamma \<noteq> None"
  shows "CubeHelix_loop n i hue rot sat gamma cm k =
     Some (cm @ concat (map (\<lambda>j. fst (the (CubeHelix_entry n j hue rot sat gamma))) [i..n - 1]),
           k + int (length (filter (\<lambda>j. snd (the (CubeHelix_entry n j hue rot sat gamma))) [i..n - 1])))"
  using assms
proof (induction n i hue rot sat gamma cm k rule: CubeHelix_loop.induct)
  case (1 n i hue rot sat gamma cm k)
  show ?case
  proof (cases "i < n")
    case False
    then show ?thesis by (simp add: CubeHelix_loop.simps)
  next
    case True
    then obtain bytes clipped where e: "CubeHelix_entry n i hue rot sat gamma = Some (bytes, clipped)"
      using "1.prems" by (cases "CubeHelix_entry n i hue rot sat gamma") auto
    have up: "[i..n - 1] = i # [i + 1..n - 1]"
      using True by (simp add: upto_rec1)
    have rest: "\<forall>j. i + 1 \<le> j \<and> j < n \<longrightarrow> CubeHelix_entry n j hue rot sat gamma \<noteq> None"
      using "1.prems" by simp
    have step: "CubeHelix_loop n i hue rot sat gamma cm k =
        CubeHelix_loop n (i + 1) hue rot sat gamma (cm @ bytes) (if clipped then k + 1 else k)"
      using True e by (simp add: CubeHelix_loop.simps)
    show ?thesis
      unfolding step "1.IH"[OF True e refl rest] up
      using e by simp
  qed
qed

lemma concat_nth3:
  assumes "\<forall>x \<in> set xs. length (f x) = 3" "j < length xs" "k < 3"
  shows "concat (map f xs) ! (3 * j + k) = f (xs ! j) ! k"
  using assms
proof (induction xs arbitrary: j)
  case Nil
  then show ?case by simp
next
  case (Cons x xs)
  show ?case
  proof (cases j)
    case 0
    then show ?thesis using Cons.prems by (simp add: nth_append)
  next
    case (Suc j')
    then have "3 * j + k = 3 + (3 * j' + k)" by simp
    then show ?thesis using Cons Suc by (simp add: nth_append)
  qed
qed

lemma length_concat3:
  assumes "\<forall>x \<in> set xs. length (f x) = 3"
  shows "length (concat (map f xs)) = 3 * length xs"
  using assms by (induction xs) auto


lemma CubeHelix_run:
  assumes "2 \<le> n" "0 \<le> gamma"
  shows "CubeHelix n hue rot sat gamma =
     Some (concat (map (\<lambda>j. fst (the (CubeHelix_entry n j hue rot sat gamma))) [0..n - 1]),
           int (length (filter (\<lambda>j. snd (the (CubeHelix_entry n j hue rot sat gamma))) [0..n - 1])))"
proof -
  have "\<forall>j. 0 \<le> j \<and> j < n \<longrightarrow> CubeHelix_entry n j hue rot sat gamma \<noteq> None"
  proof (intro allI impI)
    fix j assume "0 \<le> j \<and> j < n"
    then obtain r g b where "CubeHelix_rgb n j hue rot sat gamma = Some (r, g, b)"
      using CubeHelix_rgb_defined[of n j gamma] assms by blast
    then show "CubeHelix_entry n j hue rot sat gamma \<noteq> None"
      by (simp add: CubeHelix_entry_Some)
  qed
  then show ?thesis
    unfolding CubeHelix_def by (simp add: CubeHelix_loop_run)
qed

text \<open>
  Claim C9.  For \<open>n \<ge> 2\<close> and \<open>gamma \<ge> 0\<close> the call returns.  The byte written for
  each channel of each colour is the channel clamped to \<open>[0, 1]\<close> on its own (times 255,
  fraction dropped), and the returned count is the number of colours \<open>i\<close> with at
  least one channel outside \<open>[0, 1]\<close>: one per such colour however many of its
  channels were clamped, none for a colour with all channels inside.
\<close>

theorem CubeHelix_clip_once_per_color:
  assumes "2 \<le> n" "0 \<le> gamma"
  shows "\<exists>cm. CubeHelix n hue rot sat gamma =
           Some (cm, int (card {i. 0 \<le> i \<and> i < n \<and>
                   (\<exists>r g b. CubeHelix_rgb n i hue rot sat gamma = Some (r, g, b) \<and>
                      \<not> (0 \<le> r \<and> r \<le> 1 \<and> 0 \<le> g \<and> g \<le> 1 \<and> 0 \<le> b \<and> b \<le> 1))}))
         \<and> length cm = nat (3 * n)
         \<and> (\<forall>i. 0 \<le> i \<and> i < n \<longrightarrow>
              (\<exists>r g b. CubeHelix_rgb n i hue rot sat gamma = Some (r, g, b) \<and>
                 cm ! nat (3 * i) = uchar_of_float (clamp r 0 1 * 255) \<and>
                 cm ! nat (3 * i + 1) = uchar_of_float (clamp g 0 1 * 255) \<and>
                 cm ! nat (3 * i + 2) = uchar_of_float (clamp b 0 1 * 255)))"
proof -
  let ?e = "\<lambda>j. CubeHelix_entry n j hue rot sat gamma"
  let ?f = "\<lambda>j. fst (the (?e j))"
  let ?c = "\<lambda>j. snd (the (?e j))"
  let ?out = "\<lambda>i. \<exists>r g b. CubeHelix_rgb n i hue rot sat gamma = Some (r, g, b) \<and>
                      \<not> (0 \<le> r \<and> r \<le> 1 \<and> 0 \<le> g \<and> g \<le> 1 \<and> 0 \<le> b \<and> b \<le> 1)"
  let ?cm = "concat (map ?f [0..n - 1])"
  have run: "CubeHelix n hue rot sat gamma = Some (?cm, int (length (filter ?c [0..n - 1])))"
    by (rule CubeHelix_run[OF assms])
  have len3: "\<forall>j \<in> set [0..n - 1]. length (?f j) = 3"
  proof
    fix j assume "j \<in> set [0..n - 1]"
    then have "0 \<le> j" by simp
    then obtain r g b where "CubeHelix_rgb n j hue rot sat gamma = Some (r, g, b)"
      using CubeHelix_rgb_defined[of n j gamma] assms by blast
    then show "length (?f j) = 3" by (simp add: CubeHelix_entry_Some)
  qed
  have flag: "?c j = ?out j" if j: "0 \<le> j" for j
  proof -
    obtain r g b where "CubeHelix_rgb n j hue rot sat gamma = Some (r, g, b)"
      using CubeHelix_rgb_defined[OF assms(1) j assms(2)] by blast
    then show ?thesis by (simp add: CubeHelix_entry_Some)
  qed
  have "{i. 0 \<le> i \<and> i < n \<and> ?out i} = set (filter ?c [0..n - 1])"
    using flag by auto
  moreover have "card (set (filter ?c [0..n - 1])) = length (filter ?c [0..n - 1])"
    by (rule distinct_card) simp
  ultimately have "card {i. 0 \<le> i \<and> i < n \<and> ?out i} = length (filter ?c [0..n - 1])"
    by (simp only:)
  then have count: "CubeHelix n hue rot sat gamma =
      Some (?cm, int (card {i. 0 \<le> i \<and> i < n \<and> ?out i}))"
    using run by simp
  have len: "length ?cm = nat (3 * n)"
    using length_concat3[OF len3] assms(1) by simp
  have bytes: "\<exists>r g b. CubeHelix_rgb n i hue rot sat gamma = Some (r, g, b) \<and>
                 ?cm ! nat (3 * i) = uchar_of_float (clamp r 0 1 * 255) \<and>
                 ?cm ! nat (3 * i + 1) = uchar_of_float (clamp g 0 1 * 255) \<and>
                 ?cm ! nat (3 * i + 2) = uchar_of_float (clamp b 0 1 * 255)"
    if i: "0 \<le> i \<and> i < n" for i
  proof -
    obtain r g b where rgb: "CubeHelix_rgb n i hue rot sat gamma = Some (r, g, b)"
      using CubeHelix_rgb_defined[of n i gamma] assms i by blast
    have il: "nat i < length [0..n - 1]" using i by simp
    have nth: "[0..n - 1] ! nat i = i" using i by simp
    have a: "?cm ! (3 * nat i + k) = ?f i ! k" if "k < 3" for k
      using concat_nth3[OF len3 il that] nth by simp
    have n0: "nat (3 * i) = 3 * nat i + 0" using i by linarith
    have n1: "nat (3 * i + 1) = 3 * nat i + 1" using i by linarith
    have n2: "nat (3 * i + 2) = 3 * nat i + 2" using i by linarith
    show ?thesis
      unfolding n0 n1 n2 using rgb a[of 0] a[of 1] a[of 2]
      by (simp add: CubeHelix_entry_Some)
  qed
  show ?thesis
    using count len bytes by blast
qed


text \<open>
  Claim C3, as stated, fails: the source replaces \<open>fract\<close> by \<open>pow(fract, gamma)\<close>
  before it computes the amplitude.  For \<open>n = 3\<close>, \<open>i = 1\<close>, \<open>hue = 0\<close>,
  \<open>rot = 0\<close>, \<open>saturation = 1\<close>, \<open>gamma = 2\<close> the amplitude of the code is
  \<open>(1/4) \<sqdot> (3/4) / 2 = 3/32\<close>, that of the claim \<open>(1/2) \<sqdot> (1/2) / 2 = 1/8\<close>.
\<close>

theorem CubeHelix_rgb_claimed_counterexample:
  "CubeHelix_rgb 3 1 0 0 1 2 \<noteq> Some (CubeHelix_rgb_claimed 3 1 0 0 1 2)"
  by (simp add: CubeHelix_rgb_def CubeHelix_rgb_claimed_def fdiv_def fpow_def twopi_def
      power2_eq_square)

text \<open>
  Claim C3, amended.  For \<open>n \<ge> 2\<close> and \<open>0 \<le> i < n\<close> (with \<open>gamma > 0\<close>, or \<open>i > 0\<close>),
  with \<open>fract = i / (n - 1)\<close> and \<open>gray = fract\<^sup>g\<^sup>a\<^sup>m\<^sup>m\<^sup>a\<close>, each channel before clamping
  is \<open>gray\<close> plus the amplitude \<open>saturation \<sqdot> gray \<sqdot> (1 - gray) / 2\<close> times the fixed
  sinusoidal basis at the angle \<open>2\<pi> \<sqdot> (hue / 3 + 1 + rot \<sqdot> fract)\<close>: the amplitude is
  taken from the gamma-corrected ramp, the angle from the uncorrected fraction.
\<close>

theorem CubeHelix_rgb_formula:
  assumes "2 \<le> n" "0 \<le> i" "i < n" "0 < gamma \<or> 0 < i"
  shows "CubeHelix_rgb n i hue rot saturation gamma =
     Some (let fract = of_int i / (of_int n - 1);
               angle = 2 * pi * (hue / 3 + 1 + rot * fract);
               gray = fract powr gamma;
               amp = saturation * gray * (1 - gray) / 2
           in (gray + amp * (- 0.14861 * cos angle + 1.78277 * sin angle),
               gray + amp * (- 0.29227 * cos angle - 0.90649 * sin angle),
               gray + amp * (1.97294 * cos angle)))"
  using assms
  by (auto simp add: CubeHelix_rgb_def fdiv_def fpow_def twopi_def Let_def)

theorem CubeHelix_rgb_formula_witness:
  "2 \<le> (3::int) \<and> 0 \<le> (1::int) \<and> (1::int) < 3 \<and> (0 < (2::real) \<or> 0 < (1::int)) \<and>
   CubeHelix_rgb 3 1 0 0 1 2 = Some (0.2360678125, 0.2225996875, 0.434963125)"
proof -
  have "CubeHelix_rgb 3 1 0 0 1 2 =
     Some (let fract = of_int 1 / (of_int 3 - 1);
               angle = 2 * pi * (0 / 3 + 1 + 0 * fract);
               gray = fract powr 2;
               amp = 1 * gray * (1 - gray) / 2
           in (gray + amp * (- 0.14861 * cos angle + 1.78277 * sin angle),
               gray + amp * (- 0.29227 * cos angle - 0.90649 * sin angle),
               gray + amp * (1.97294 * cos angle)))"
    by (rule CubeHelix_rgb_formula) simp_all
  then show ?thesis by (simp add: Let_def power2_eq_square)
qed

text \<open>A run with one clipped colour: the blue channel of the middle entry exceeds 1.\<close>

lemma CubeHelix_example:
  "CubeHelix 3 0 0 4 1 = Some ([0, 0, 0, 108, 90, 255, 255, 255, 255], 1)"
  by (simp add: CubeHelix_def CubeHelix_loop.simps CubeHelix_entry_def CubeHelix_rgb_def fdiv_def fpow_def twopi_def
      CubeHelix_clip_def clip_channel_def CubeHelix_bytes_def uchar_of_float_def)

theorem CubeHelix_clip_once_per_color_witness:
  "2 \<le> (3::int) \<and> 0 \<le> (1::real) \<and>
   (\<exists>cm. CubeHelix 3 0 0 4 1 =
           Some (cm, int (card {i. 0 \<le> i \<and> i < 3 \<and>
                   (\<exists>r g b. CubeHelix_rgb 3 i 0 0 4 1 = Some (r, g, b) \<and>
                      \<not> (0 \<le> r \<and> r \<le> 1 \<and> 0 \<le> g \<and> g \<le> 1 \<and> 0 \<le> b \<and> b \<le> 1))}))
         \<and> length cm = nat (3 * 3)
         \<and> (\<forall>i. 0 \<le> i \<and> i < 3 \<longrightarrow>
              (\<exists>r g b. CubeHelix_rgb 3 i 0 0 4 1 = Some (r, g, b) \<and>
                 cm ! nat (3 * i) = uchar_of_float (clamp r 0 1 * 255) \<and>
                 cm ! nat (3 * i + 1) = uchar_of_float (clamp g 0 1 * 255) \<and>
                 cm ! nat (3 * i + 2) = uchar_of_float (clamp b 0 1 * 255))))"
proof -
  have h1: "2 \<le> (3::int)" and h2: "0 \<le> (1::real)" by simp_all
  from CubeHelix_clip_once_per_color[OF h1 h2, of 0 0 4] h1 h2 show ?thesis by blast
qed


section \<open>CubeHelix: the endpoints with the loop counter in binary32\<close>

lemma round_half_even_int [simp]: "round_half_even (of_int m) = m"
  by (simp add: round_half_even_def)




















section \<open>Conversions: the white point, the divisor guards, the transfer curves\<close>

lemma d65_u_prime_val: "d65_u_prime = 95047 / 480424"
  by (simp add: d65_u_prime_def d65_x_def d65_y_def d65_z_def)

lemma d65_v_prime_val: "d65_v_prime = 28125 / 60053"
  by (simp add: d65_v_prime_def d65_x_def d65_y_def d65_z_def)

lemma d65_prime:
  "u_prime d65_x d65_y d65_z = Some d65_u_prime" "v_prime d65_x d65_y d65_z = Some d65_v_prime"
  by (simp_all add: u_prime_def v_prime_def fdiv_def d65_u_prime_def d65_v_prime_def
      d65_x_def d65_y_def d65_z_def)

text \<open>
  Claim C6, as stated, fails: \<open>u_prime\<close> and \<open>v_prime\<close> divide by
  \<open>x + 15 y + 3 z\<close> with no guard.  At \<open>(0, 0, 0)\<close> both compute \<open>0 / 0\<close>, which is
  not the number 0, and \<open>xyz_to_luv\<close> has no finite result at black.
\<close>

theorem u_prime_unguarded_counterexample:
  "u_prime 0 0 0 \<noteq> Some 0 \<and> v_prime 0 0 0 \<noteq> Some 0 \<and> xyz_to_luv 0 0 0 = None"
  by (simp add: u_prime_def v_prime_def xyz_to_luv_def fdiv_def)

text \<open>
  Claim C6, amended.  \<open>u_prime\<close> and \<open>v_prime\<close> are the unguarded quotients
  \<open>4 x / (x + 15 y + 3 z)\<close> and \<open>9 y / (x + 15 y + 3 z)\<close>; they, and with them
  \<open>xyz_to_luv\<close>, return finite values whenever the divisor is not zero.  (Every call
  of \<open>xyz_to_luv\<close> in the program passes the XYZ image of an RGB colour with a
  channel at 1, where the divisor is positive: lemma \<open>boundary_xyz\<close>.)
\<close>

theorem xyz_to_luv_total_off_zero_divisor:
  assumes "x + 15 * y + 3 * z \<noteq> 0"
  shows "u_prime x y z = Some (4 * x / (x + 15 * y + 3 * z))
       \<and> v_prime x y z = Some (9 * y / (x + 15 * y + 3 * z))
       \<and> (\<exists>l u v. xyz_to_luv x y z = Some (l, u, v))"
  using assms by (simp add: u_prime_def v_prime_def xyz_to_luv_def fdiv_def Let_def)

lemma xyz_to_luv_None_iff: "xyz_to_luv x y z = None \<longleftrightarrow> x + 15 * y + 3 * z = 0"
  by (simp add: u_prime_def v_prime_def xyz_to_luv_def fdiv_def Let_def)

theorem xyz_to_luv_total_off_zero_divisor_witness:
  "(1::real) + 15 * 1 + 3 * 1 \<noteq> 0
       \<and> u_prime 1 1 1 = Some (4 * 1 / (1 + 15 * 1 + 3 * 1))
       \<and> v_prime 1 1 1 = Some (9 * 1 / (1 + 15 * 1 + 3 * 1))
       \<and> (\<exists>l u v. xyz_to_luv 1 1 1 = Some (l, u, v))"
proof -
  have h: "(1::real) + 15 * 1 + 3 * 1 \<noteq> 0" by simp
  from xyz_to_luv_total_off_zero_divisor[OF h] h show ?thesis by blast
qed

lemma srgb_to_rgb_helper_0 [simp]: "srgb_to_rgb_helper 0 = 0"
  by (simp add: srgb_to_rgb_helper_def)

lemma srgb_to_rgb_helper_1 [simp]: "srgb_to_rgb_helper 1 = 1"
  by (simp add: srgb_to_rgb_helper_def)

lemma srgb_to_rgb_helper_range:
  assumes "0 \<le> x" "x \<le> 1"
  shows "0 \<le> srgb_to_rgb_helper x \<and> srgb_to_rgb_helper x \<le> 1"
proof (cases "x \<le> 0.04045")
  case True
  then show ?thesis using assms by (simp add: srgb_to_rgb_helper_def)
next
  case False
  have "(x + 0.055) / 1.055 \<le> 1" using assms by simp
  moreover have "0 \<le> (x + 0.055) / 1.055" using assms by simp
  ultimately have "((x + 0.055) / 1.055) powr 2.4 \<le> 1"
    by (intro powr_le1) simp_all
  then show ?thesis using False by (simp add: srgb_to_rgb_helper_def)
qed

lemma rgb_to_srgb_helper_0 [simp]: "rgb_to_srgb_helper 0 = 0"
  by (simp add: rgb_to_srgb_helper_def)

lemma rgb_to_srgb_helper_1 [simp]: "rgb_to_srgb_helper 1 = 1"
  by (simp add: rgb_to_srgb_helper_def)

lemma powr_5_12_lower:
  fixes c d :: real
  assumes "0 < d" "0 < c" "d ^ 12 \<le> c ^ 5"
  shows "d \<le> c powr (5 / 12)"
proof -
  have "d = root 12 (d ^ 12)"
    using assms by (simp add: real_root_power_cancel)
  also have "\<dots> = (d ^ 12) powr (1 / 12)"
    using assms root_powr_inverse[of 12 "d ^ 12"] by simp
  also have "\<dots> \<le> (c ^ 5) powr (1 / 12)"
    using assms by (intro powr_mono2) simp_all
  also have "\<dots> = (c powr 5) powr (1 / 12)"
    using assms by simp
  also have "\<dots> = c powr (5 / 12)"
    unfolding powr_powr by simp
  finally show ?thesis .
qed

lemma rgb_to_srgb_helper_range:
  assumes "0 \<le> x" "x \<le> 1"
  shows "0 \<le> rgb_to_srgb_helper x \<and> rgb_to_srgb_helper x \<le> 1"
proof (cases "x \<le> 0.0031308")
  case True
  then show ?thesis using assms by (simp add: rgb_to_srgb_helper_def)
next
  case False
  then have x: "0.0031308 < x" by simp
  have le1: "x powr (1 / 2.4) \<le> 1"
    using assms by (intro powr_le1) simp_all
  have "(0.0031308::real) powr (5 / 12) \<le> x powr (5 / 12)"
    using x by (intro powr_mono2) simp_all
  moreover have "(0.09::real) \<le> 0.0031308 powr (5 / 12)"
    by (rule powr_5_12_lower) (simp_all add: power_divide)
  ultimately have "0.09 \<le> x powr (1 / 2.4)" by simp
  then have "0 \<le> 1.055 * x powr (1 / 2.4) - 0.055" by simp
  then show ?thesis using False le1 by (simp add: rgb_to_srgb_helper_def)
qed

section \<open>Hue angles\<close>

lemma atan2_range: "- pi < atan2 y x \<and> atan2 y x \<le> pi"
proof -
  have a: "- (pi / 2) < arctan (y / x)" "arctan (y / x) < pi / 2"
    using arctan_lbound arctan_ubound by auto
  have b: "0 \<le> y \<Longrightarrow> x < 0 \<Longrightarrow> arctan (y / x) \<le> 0"
    by (simp add: divide_nonneg_neg arctan_le_zero_iff)
  have c: "y < 0 \<Longrightarrow> x < 0 \<Longrightarrow> 0 < arctan (y / x)"
    by (simp add: divide_neg_neg)
  show ?thesis
    unfolding atan2_def using a b c pi_gt_zero by (auto simp: not_less not_le)
qed

lemma luv_to_lch_hue_range:
  "0 \<le> snd (luv_to_lch u v) \<and> snd (luv_to_lch u v) < 2 * pi"
  using atan2_range[of v u] pi_gt_zero
  by (auto simp add: luv_to_lch_def Let_def twopi_def)

lemma hue_quadrant1:
  assumes "0 < u" "0 < v"
  shows "0 < snd (luv_to_lch u v) \<and> snd (luv_to_lch u v) < pi / 2"
proof -
  define a where "a = arctan (v / u)"
  have "0 < a" unfolding a_def using assms by simp
  moreover have "a < pi / 2" "- (pi / 2) < a"
    unfolding a_def by (rule arctan_ubound, rule arctan_lbound)
  ultimately show ?thesis using assms pi_gt_zero
    by (simp add: luv_to_lch_def Let_def atan2_def twopi_def a_def[symmetric])
qed

lemma hue_quadrant2:
  assumes "u < 0" "0 < v"
  shows "pi / 2 < snd (luv_to_lch u v) \<and> snd (luv_to_lch u v) < pi"
proof -
  define a where "a = arctan (v / u)"
  have "a < 0" unfolding a_def using assms by (simp add: divide_pos_neg)
  moreover have "a < pi / 2" "- (pi / 2) < a"
    unfolding a_def by (rule arctan_ubound, rule arctan_lbound)
  ultimately show ?thesis using assms pi_gt_zero
    by (simp add: luv_to_lch_def Let_def atan2_def twopi_def a_def[symmetric])
qed

lemma hue_quadrant3:
  assumes "u < 0" "v < 0"
  shows "pi < snd (luv_to_lch u v) \<and> snd (luv_to_lch u v) < 3 * pi / 2"
proof -
  define a where "a = arctan (v / u)"
  have "0 < a" unfolding a_def using assms by (simp add: divide_neg_neg)
  moreover have "a < pi / 2" "- (pi / 2) < a"
    unfolding a_def by (rule arctan_ubound, rule arctan_lbound)
  ultimately show ?thesis using assms pi_gt_zero
    by (simp add: luv_to_lch_def Let_def atan2_def twopi_def a_def[symmetric])
qed

lemma hue_quadrant4:
  assumes "0 < u" "v < 0"
  shows "3 * pi / 2 < snd (luv_to_lch u v) \<and> snd (luv_to_lch u v) < 2 * pi"
proof -
  define a where "a = arctan (v / u)"
  have "a < 0" unfolding a_def using assms by (simp add: divide_neg_pos)
  moreover have "a < pi / 2" "- (pi / 2) < a"
    unfolding a_def by (rule arctan_ubound, rule arctan_lbound)
  ultimately show ?thesis using assms pi_gt_zero
    by (simp add: luv_to_lch_def Let_def atan2_def twopi_def a_def[symmetric])
qed

lemma root3_threshold: "root 3 (216 / 24389) = 6 / 29"
proof -
  have "root 3 ((6 / 29) ^ 3) = (6 / 29 :: real)"
    by (rule real_root_power_cancel) simp_all
  then show ?thesis by (simp add: power_divide)
qed

lemma lightness_above_8:
  assumes "216 / 24389 < yr"
  shows "8 < 116 * root 3 yr - 16"
proof -
  have "root 3 (216 / 24389) < root 3 yr"
    using assms by simp
  then show ?thesis by (simp add: root3_threshold)
qed

lemma lightness_below_100:
  assumes "yr < 1"
  shows "116 * root 3 yr - 16 < 100"
proof -
  have "root 3 yr < root 3 1" using assms by (simp del: real_root_one)
  then show ?thesis by simp
qed

text \<open>The LUV colour of a linear RGB colour whose luminance is above the linear segment.\<close>

lemma xyz_to_luv_rgb:
  assumes "rgb_to_xyz r g b = (x, y, z)" "x + 15 * y + 3 * z \<noteq> 0" "216 / 24389 < y / 100"
  shows "xyz_to_luv x y z =
     Some (116 * root 3 (y / 100) - 16,
           13 * (116 * root 3 (y / 100) - 16) * (4 * x / (x + 15 * y + 3 * z) - d65_u_prime),
           13 * (116 * root 3 (y / 100) - 16) * (9 * y / (x + 15 * y + 3 * z) - d65_v_prime))"
  using assms by (simp add: xyz_to_luv_def u_prime_def v_prime_def fdiv_def Let_def d65_y_def)

lemma srgb_to_lch_hue_corner:
  assumes "sr = 0 \<or> sr = 1" "sg = 0 \<or> sg = 1" "sb = 0 \<or> sb = 1"
    and "rgb_to_xyz sr sg sb = (x, y, z)" "0 < x + 15 * y + 3 * z" "216 / 24389 < y / 100"
  shows "srgb_to_lch_hue sr sg sb =
     Some (snd (luv_to_lch
       (13 * (116 * root 3 (y / 100) - 16) * (4 * x / (x + 15 * y + 3 * z) - d65_u_prime))
       (13 * (116 * root 3 (y / 100) - 16) * (9 * y / (x + 15 * y + 3 * z) - d65_v_prime))))"
proof -
  have "srgb_to_rgb sr sg sb = (sr, sg, sb)"
    using assms(1-3) by (auto simp add: srgb_to_rgb_def)
  moreover have "x + 15 * y + 3 * z \<noteq> 0" using assms(5) by simp
  ultimately show ?thesis
    using xyz_to_luv_rgb[OF assms(4) _ assms(6)]
    by (simp add: srgb_to_lch_hue_def assms(4) split: prod.splits)
qed

lemma hue_red: "\<exists>h. srgb_to_lch_hue 1 0 0 = Some h \<and> 0 < h \<and> h < pi / 2"
proof -
  define l :: real where "l = 116 * root 3 (21.26 / 100) - 16"
  have l: "8 < l" unfolding l_def by (rule lightness_above_8) simp
  have x: "rgb_to_xyz 1 0 0 = (41.24, 21.26, 1.93)" by (simp add: rgb_to_xyz_def)
  have "srgb_to_lch_hue 1 0 0 = Some (snd (luv_to_lch
       (13 * l * (4 * 41.24 / (41.24 + 15 * 21.26 + 3 * 1.93) - d65_u_prime))
       (13 * l * (9 * 21.26 / (41.24 + 15 * 21.26 + 3 * 1.93) - d65_v_prime))))"
    unfolding l_def using srgb_to_lch_hue_corner[OF _ _ _ x] by simp
  moreover have "0 < 13 * l * (4 * 41.24 / (41.24 + 15 * 21.26 + 3 * 1.93) - d65_u_prime)"
    using l by (simp add: d65_u_prime_val mult_less_0_iff)
  moreover have "0 < 13 * l * (9 * 21.26 / (41.24 + 15 * 21.26 + 3 * 1.93) - d65_v_prime)"
    using l by (simp add: d65_v_prime_val mult_less_0_iff)
  ultimately show ?thesis using hue_quadrant1 by auto
qed

lemma hue_yellow: "\<exists>h. srgb_to_lch_hue 1 1 0 = Some h \<and> 0 < h \<and> h < pi / 2"
proof -
  define l :: real where "l = 116 * root 3 (92.78 / 100) - 16"
  have l: "8 < l" unfolding l_def by (rule lightness_above_8) simp
  have x: "rgb_to_xyz 1 1 0 = (77, 92.78, 13.85)" by (simp add: rgb_to_xyz_def)
  have "srgb_to_lch_hue 1 1 0 = Some (snd (luv_to_lch
       (13 * l * (4 * 77 / (77 + 15 * 92.78 + 3 * 13.85) - d65_u_prime))
       (13 * l * (9 * 92.78 / (77 + 15 * 92.78 + 3 * 13.85) - d65_v_prime))))"
    unfolding l_def using srgb_to_lch_hue_corner[OF _ _ _ x] by simp
  moreover have "0 < 13 * l * (4 * 77 / (77 + 15 * 92.78 + 3 * 13.85) - d65_u_prime)"
    using l by (simp add: d65_u_prime_val mult_less_0_iff)
  moreover have "0 < 13 * l * (9 * 92.78 / (77 + 15 * 92.78 + 3 * 13.85) - d65_v_prime)"
    using l by (simp add: d65_v_prime_val mult_less_0_iff)
  ultimately show ?thesis using hue_quadrant1 by auto
qed

lemma hue_green: "\<exists>h. srgb_to_lch_hue 0 1 0 = Some h \<and> pi / 2 < h \<and> h < pi"
proof -
  define l :: real where "l = 116 * root 3 (71.52 / 100) - 16"
  have l: "8 < l" unfolding l_def by (rule lightness_above_8) simp
  have x: "rgb_to_xyz 0 1 0 = (35.76, 71.52, 11.92)" by (simp add: rgb_to_xyz_def)
  have "srgb_to_lch_hue 0 1 0 = Some (snd (luv_to_lch
       (13 * l * (4 * 35.76 / (35.76 + 15 * 71.52 + 3 * 11.92) - d65_u_prime))
       (13 * l * (9 * 71.52 / (35.76 + 15 * 71.52 + 3 * 11.92) - d65_v_prime))))"
    unfolding l_def using srgb_to_lch_hue_corner[OF _ _ _ x] by simp
  moreover have "13 * l * (4 * 35.76 / (35.76 + 15 * 71.52 + 3 * 11.92) - d65_u_prime) < 0"
    using l by (simp add: d65_u_prime_val mult_less_0_iff)
  moreover have "0 < 13 * l * (9 * 71.52 / (35.76 + 15 * 71.52 + 3 * 11.92) - d65_v_prime)"
    using l by (simp add: d65_v_prime_val mult_less_0_iff)
  ultimately show ?thesis using hue_quadrant2 by auto
qed

lemma hue_cyan: "\<exists>h. srgb_to_lch_hue 0 1 1 = Some h \<and> pi < h \<and> h < 3 * pi / 2"
proof -
  define l :: real where "l = 116 * root 3 (78.74 / 100) - 16"
  have l: "8 < l" unfolding l_def by (rule lightness_above_8) simp
  have x: "rgb_to_xyz 0 1 1 = (53.81, 78.74, 106.97)" by (simp add: rgb_to_xyz_def)
  have "srgb_to_lch_hue 0 1 1 = Some (snd (luv_to_lch
       (13 * l * (4 * 53.81 / (53.81 + 15 * 78.74 + 3 * 106.97) - d65_u_prime))
       (13 * l * (9 * 78.74 / (53.81 + 15 * 78.74 + 3 * 106.97) - d65_v_prime))))"
    unfolding l_def using srgb_to_lch_hue_corner[OF _ _ _ x] by simp
  moreover have "13 * l * (4 * 53.81 / (53.81 + 15 * 78.74 + 3 * 106.97) - d65_u_prime) < 0"
    using l by (simp add: d65_u_prime_val mult_less_0_iff)
  moreover have "13 * l * (9 * 78.74 / (53.81 + 15 * 78.74 + 3 * 106.97) - d65_v_prime) < 0"
    using l by (simp add: d65_v_prime_val mult_less_0_iff)
  ultimately show ?thesis using hue_quadrant3 by auto
qed

lemma hue_blue: "\<exists>h. srgb_to_lch_hue 0 0 1 = Some h \<and> pi < h \<and> h < 3 * pi / 2"
proof -
  define l :: real where "l = 116 * root 3 (7.22 / 100) - 16"
  have l: "8 < l" unfolding l_def by (rule lightness_above_8) simp
  have x: "rgb_to_xyz 0 0 1 = (18.05, 7.22, 95.05)" by (simp add: rgb_to_xyz_def)
  have "srgb_to_lch_hue 0 0 1 = Some (snd (luv_to_lch
       (13 * l * (4 * 18.05 / (18.05 + 15 * 7.22 + 3 * 95.05) - d65_u_prime))
       (13 * l * (9 * 7.22 / (18.05 + 15 * 7.22 + 3 * 95.05) - d65_v_prime))))"
    unfolding l_def using srgb_to_lch_hue_corner[OF _ _ _ x] by simp
  moreover have "13 * l * (4 * 18.05 / (18.05 + 15 * 7.22 + 3 * 95.05) - d65_u_prime) < 0"
    using l by (simp add: d65_u_prime_val mult_less_0_iff)
  moreover have "13 * l * (9 * 7.22 / (18.05 + 15 * 7.22 + 3 * 95.05) - d65_v_prime) < 0"
    using l by (simp add: d65_v_prime_val mult_less_0_iff)
  ultimately show ?thesis using hue_quadrant3 by auto
qed

lemma hue_magenta: "\<exists>h. srgb_to_lch_hue 1 0 1 = Some h \<and> 3 * pi / 2 < h \<and> h < 2 * pi"
proof -
  define l :: real where "l = 116 * root 3 (28.48 / 100) - 16"
  have l: "8 < l" unfolding l_def by (rule lightness_above_8) simp
  have x: "rgb_to_xyz 1 0 1 = (59.29, 28.48, 96.98)" by (simp add: rgb_to_xyz_def)
  have "srgb_to_lch_hue 1 0 1 = Some (snd (luv_to_lch
       (13 * l * (4 * 59.29 / (59.29 + 15 * 28.48 + 3 * 96.98) - d65_u_prime))
       (13 * l * (9 * 28.48 / (59.29 + 15 * 28.48 + 3 * 96.98) - d65_v_prime))))"
    unfolding l_def using srgb_to_lch_hue_corner[OF _ _ _ x] by simp
  moreover have "0 < 13 * l * (4 * 59.29 / (59.29 + 15 * 28.48 + 3 * 96.98) - d65_u_prime)"
    using l by (simp add: d65_u_prime_val mult_less_0_iff)
  moreover have "13 * l * (9 * 28.48 / (59.29 + 15 * 28.48 + 3 * 96.98) - d65_v_prime) < 0"
    using l by (simp add: d65_v_prime_val mult_less_0_iff)
  ultimately show ?thesis using hue_quadrant4 by auto
qed

lemma corner_hues_range:
  obtains h0 h1 h2 h3 h4 h5 where
    "corner_hues = [Some h0, Some h1, Some h2, Some h3, Some h4, Some h5]"
    "0 < h0" "h0 < pi / 2" "0 < h1" "h1 < pi / 2" "pi / 2 < h2" "h2 < pi"
    "pi < h3" "h3 < 3 * pi / 2" "pi < h4" "h4 < 3 * pi / 2" "3 * pi / 2 < h5" "h5 < 2 * pi"
  using hue_red hue_yellow hue_green hue_cyan hue_blue hue_magenta
  unfolding corner_hues_def by blast

section \<open>The gamut boundary solver returns for every hue\<close>

lemma clamp_ext_range:
  assumes "\<not> (a = 0 \<and> b = 0)"
  shows "\<exists>c. clamp_ext (fdiv_ext a b) 0 1 = Some c \<and> 0 \<le> c \<and> c \<le> 1"
  using assms by (auto simp add: clamp_ext_def fdiv_ext_def clamp_def)

lemma M_nth:
  "M ! 0 ! 0 = 0.4124" "M ! 0 ! 1 = 0.3576" "M ! 0 ! 2 = 0.1805"
  "M ! 1 ! 0 = 0.2126" "M ! 1 ! 1 = 0.7152" "M ! 1 ! 2 = 0.0722"
  "M ! 2 ! 0 = 0.0193" "M ! 2 ! 1 = 0.1192" "M ! 2 ! 2 = 0.9505"
  by (simp_all add: M_def)

lemma q_of_linear:
  "q_of s c 0 = (193348671 / 208880000) * s + (-5211999 / 26110000) * c"
  "q_of s c 1 = (-31284636 / 37533125) * s + (-40443219 / 37533125) * c"
  "q_of s c 2 = (-44252277 / 480424000) * s + (191779839 / 150132500) * c"
  by (simp_all add: q_of_def M_def d65_u_prime_val d65_v_prime_val algebra_simps)

lemma q_of_not_both_zero:
  assumes "s\<^sup>2 + c\<^sup>2 = 1" "i < 3" "k < 3" "i \<noteq> k"
  shows "\<not> (q_of s c k = 0 \<and> q_of s c i = 0)"
proof
  assume z: "q_of s c k = 0 \<and> q_of s c i = 0"
  have pairs: "(i = 0 \<and> k = 1) \<or> (i = 0 \<and> k = 2) \<or> (i = 1 \<and> k = 0) \<or> (i = 1 \<and> k = 2)
      \<or> (i = 2 \<and> k = 0) \<or> (i = 2 \<and> k = 1)"
    using assms(2-4) by linarith
  have lin: "q_of s c 0 = 0 \<Longrightarrow> q_of s c 1 = 0 \<Longrightarrow> s = 0 \<and> c = 0"
    "q_of s c 0 = 0 \<Longrightarrow> q_of s c 2 = 0 \<Longrightarrow> s = 0 \<and> c = 0"
    "q_of s c 1 = 0 \<Longrightarrow> q_of s c 2 = 0 \<Longrightarrow> s = 0 \<and> c = 0"
    unfolding q_of_linear by argo+
  have "s = 0 \<and> c = 0"
    using pairs z lin by blast
  then show False using assms(1) by simp
qed

lemma sector_cases:
  "sector h hue \<in> {(2, 1, 0), (1, 2, 0), (0, 2, 1), (2, 0, 1), (1, 0, 2), (0, 1, 2)}"
  by (simp add: sector_def)

lemma most_saturated_srgb_q:
  assumes "corner_hues = [Some h0, Some h1, Some h2, Some h3, Some h4, Some h5]"
    and "sector [h0, h1, h2, h3, h4, h5] hue = (i, j, k)"
  shows "most_saturated_srgb hue =
     do {
       c \<leftarrow> clamp_ext (fdiv_ext (- q_of (sin hue) (cos hue) k) (q_of (sin hue) (cos hue) i)) 0 1;
       Some ([0, 0, 0][j := 0, k := 1, i := rgb_to_srgb_helper c])
     }"
  unfolding most_saturated_srgb_def assms(1)
  by (simp add: assms(2) q_of_def Let_def)

lemma most_saturated_srgb_cases:
  obtains h0 h1 h2 h3 h4 h5 i j k c where
    "corner_hues = [Some h0, Some h1, Some h2, Some h3, Some h4, Some h5]"
    "sector [h0, h1, h2, h3, h4, h5] hue = (i, j, k)"
    "(i, j, k) \<in> {(2, 1, 0), (1, 2, 0), (0, 2, 1), (2, 0, 1), (1, 0, 2), (0, 1, 2)}"
    "0 \<le> c" "c \<le> 1"
    "most_saturated_srgb hue = Some ([0, 0, 0][j := 0, k := 1, i := rgb_to_srgb_helper c])"
proof (rule corner_hues_range)
  fix h0 h1 h2 h3 h4 h5
  assume h: "corner_hues = [Some h0, Some h1, Some h2, Some h3, Some h4, Some h5]"
  obtain i j k where s: "sector [h0, h1, h2, h3, h4, h5] hue = (i, j, k)"
    by (cases "sector [h0, h1, h2, h3, h4, h5] hue") auto
  have mem: "(i, j, k) \<in> {(2, 1, 0), (1, 2, 0), (0, 2, 1), (2, 0, 1), (1, 0, 2), (0, 1, 2)}"
    using sector_cases[of "[h0, h1, h2, h3, h4, h5]" hue] s by simp
  then have ik: "i < 3" "k < 3" "i \<noteq> k" by auto
  have "\<not> (q_of (sin hue) (cos hue) k = 0 \<and> q_of (sin hue) (cos hue) i = 0)"
    by (rule q_of_not_both_zero[OF _ ik]) simp
  then have nz: "\<not> (- q_of (sin hue) (cos hue) k = 0 \<and> q_of (sin hue) (cos hue) i = 0)"
    by simp
  obtain c where c: "clamp_ext (fdiv_ext (- q_of (sin hue) (cos hue) k)
        (q_of (sin hue) (cos hue) i)) 0 1 = Some c" "0 \<le> c" "c \<le> 1"
    using clamp_ext_range[OF nz] by blast
  have ms: "most_saturated_srgb hue = Some ([0, 0, 0][j := 0, k := 1, i := rgb_to_srgb_helper c])"
    unfolding most_saturated_srgb_q[OF h s] c(1) by simp
  show thesis by (rule that[OF h s mem c(2) c(3) ms])
qed

lemma most_saturated_srgb_boundary:
  obtains sr sg sb where
    "most_saturated_srgb hue = Some [sr, sg, sb]"
    "0 \<le> sr" "sr \<le> 1" "0 \<le> sg" "sg \<le> 1" "0 \<le> sb" "sb \<le> 1"
    "sr = 0 \<or> sg = 0 \<or> sb = 0" "sr = 1 \<or> sg = 1 \<or> sb = 1"
proof (rule most_saturated_srgb_cases[of hue])
  fix h0 h1 h2 h3 h4 h5 :: real and i j k :: nat and c :: real
  assume mem: "(i, j, k) \<in> {(2, 1, 0), (1, 2, 0), (0, 2, 1), (2, 0, 1), (1, 0, 2), (0, 1, 2)}"
    and c: "0 \<le> c" "c \<le> 1"
    and ms: "most_saturated_srgb hue = Some ([0, 0, 0][j := 0, k := 1, i := rgb_to_srgb_helper c])"
  define s where "s = rgb_to_srgb_helper c"
  have s: "0 \<le> s" "s \<le> 1"
    unfolding s_def using rgb_to_srgb_helper_range[OF c] by simp_all
  have "[0, 0, 0][j := 0, k := 1, i := s] \<in> {[1, 0, s], [1, s, 0], [s, 1, 0], [0, 1, s], [0, s, 1], [s, 0, 1]}"
    using mem by auto
  then consider "most_saturated_srgb hue = Some [1, 0, s]" | "most_saturated_srgb hue = Some [1, s, 0]"
    | "most_saturated_srgb hue = Some [s, 1, 0]" | "most_saturated_srgb hue = Some [0, 1, s]"
    | "most_saturated_srgb hue = Some [0, s, 1]" | "most_saturated_srgb hue = Some [s, 0, 1]"
    unfolding ms s_def[symmetric] by auto
  then show thesis
  proof cases
    case 1 then show ?thesis using s by (intro that[of 1 0 s]) simp_all
  next
    case 2 then show ?thesis using s by (intro that[of 1 s 0]) simp_all
  next
    case 3 then show ?thesis using s by (intro that[of s 1 0]) simp_all
  next
    case 4 then show ?thesis using s by (intro that[of 0 1 s]) simp_all
  next
    case 5 then show ?thesis using s by (intro that[of 0 s 1]) simp_all
  next
    case 6 then show ?thesis using s by (intro that[of s 0 1]) simp_all
  qed
qed

lemma most_saturated_in_srgb_eq:
  assumes "most_saturated_srgb hue = Some [sr, sg, sb]"
    and "rgb_to_xyz (srgb_to_rgb_helper sr) (srgb_to_rgb_helper sg) (srgb_to_rgb_helper sb) = (x, y, z)"
    and "xyz_to_luv x y z = Some (l, u, v)"
  shows "most_saturated_in_srgb hue = Some \<lparr>luv_l = l, luv_u = u, luv_v = v\<rparr>"
  using assms by (simp add: most_saturated_in_srgb_def srgb_to_rgb_def)

text \<open>Linear RGB colours with a channel at 0 and a channel at 1: luminance and divisor.\<close>

lemma boundary_xyz:
  assumes "0 \<le> r" "r \<le> 1" "0 \<le> g" "g \<le> 1" "0 \<le> b" "b \<le> 1"
    and "r = 0 \<or> g = 0 \<or> b = 0" "r = 1 \<or> g = 1 \<or> b = 1"
    and "rgb_to_xyz r g b = (x, y, z)"
  shows "7.22 \<le> y" "y \<le> 92.78" "0 < x + 15 * y + 3 * z"
proof -
  have y: "y = 21.26 * r + 71.52 * g + 7.22 * b"
    and x: "x = 41.24 * r + 35.76 * g + 18.05 * b"
    and z: "z = 1.93 * r + 11.92 * g + 95.05 * b"
    using assms(9) by (auto simp add: rgb_to_xyz_def)
  show "7.22 \<le> y" using assms(1-8) by (simp add: y; linarith)
  show "y \<le> 92.78" using assms(1-8) by (simp add: y; linarith)
  show "0 < x + 15 * y + 3 * z" using assms(1-8) by (simp add: x y z; linarith)
qed

lemma most_saturated_in_srgb_total:
  obtains sr sg sb r g b x y z where
    "most_saturated_srgb hue = Some [sr, sg, sb]"
    "r = srgb_to_rgb_helper sr" "g = srgb_to_rgb_helper sg" "b = srgb_to_rgb_helper sb"
    "0 \<le> r" "r \<le> 1" "0 \<le> g" "g \<le> 1" "0 \<le> b" "b \<le> 1"
    "sr = 0 \<or> sg = 0 \<or> sb = 0" "sr = 1 \<or> sg = 1 \<or> sb = 1"
    "(sr = 0 \<longrightarrow> r = 0) \<and> (sg = 0 \<longrightarrow> g = 0) \<and> (sb = 0 \<longrightarrow> b = 0)"
    "(sr = 1 \<longrightarrow> r = 1) \<and> (sg = 1 \<longrightarrow> g = 1) \<and> (sb = 1 \<longrightarrow> b = 1)"
    "rgb_to_xyz r g b = (x, y, z)"
    "7.22 \<le> y" "y \<le> 92.78" "0 < x + 15 * y + 3 * z"
    "most_saturated_in_srgb hue =
       Some \<lparr>luv_l = 116 * root 3 (y / 100) - 16,
             luv_u = 13 * (116 * root 3 (y / 100) - 16) * (4 * x / (x + 15 * y + 3 * z) - d65_u_prime),
             luv_v = 13 * (116 * root 3 (y / 100) - 16) * (9 * y / (x + 15 * y + 3 * z) - d65_v_prime)\<rparr>"
proof (rule most_saturated_srgb_boundary[of hue])
  fix sr sg sb :: real
  assume ms: "most_saturated_srgb hue = Some [sr, sg, sb]"
    and rng: "0 \<le> sr" "sr \<le> 1" "0 \<le> sg" "sg \<le> 1" "0 \<le> sb" "sb \<le> 1"
    and zero: "sr = 0 \<or> sg = 0 \<or> sb = 0" and one: "sr = 1 \<or> sg = 1 \<or> sb = 1"
  define r g b where "r = srgb_to_rgb_helper sr" and "g = srgb_to_rgb_helper sg"
    and "b = srgb_to_rgb_helper sb"
  obtain x y z where xyz: "rgb_to_xyz r g b = (x, y, z)"
    by (cases "rgb_to_xyz r g b") auto
  have r: "0 \<le> r" "r \<le> 1" and g: "0 \<le> g" "g \<le> 1" and b: "0 \<le> b" "b \<le> 1"
    unfolding r_def g_def b_def using srgb_to_rgb_helper_range rng by simp_all
  have z0: "(sr = 0 \<longrightarrow> r = 0) \<and> (sg = 0 \<longrightarrow> g = 0) \<and> (sb = 0 \<longrightarrow> b = 0)"
    and o1: "(sr = 1 \<longrightarrow> r = 1) \<and> (sg = 1 \<longrightarrow> g = 1) \<and> (sb = 1 \<longrightarrow> b = 1)"
    unfolding r_def g_def b_def by simp_all
  have zero': "r = 0 \<or> g = 0 \<or> b = 0" using zero z0 by blast
  have one': "r = 1 \<or> g = 1 \<or> b = 1" using one o1 by blast
  note bx = boundary_xyz[OF r g b zero' one' xyz]
  have yr: "216 / 24389 < y / 100" using bx(1) by simp
  have nz: "x + 15 * y + 3 * z \<noteq> 0" using bx(3) by simp
  have luv: "most_saturated_in_srgb hue =
       Some \<lparr>luv_l = 116 * root 3 (y / 100) - 16,
             luv_u = 13 * (116 * root 3 (y / 100) - 16) * (4 * x / (x + 15 * y + 3 * z) - d65_u_prime),
             luv_v = 13 * (116 * root 3 (y / 100) - 16) * (9 * y / (x + 15 * y + 3 * z) - d65_v_prime)\<rparr>"
    by (rule most_saturated_in_srgb_eq[OF ms xyz[unfolded r_def g_def b_def]
          xyz_to_luv_rgb[OF xyz nz yr]])
  show thesis
    by (rule that[OF ms r_def g_def b_def r g b zero one z0 o1 xyz bx luv])
qed


section \<open>The gamut boundary solver and the period of the hue\<close>

lemma most_saturated_srgb_sector:
  assumes "corner_hues = [Some h0, Some h1, Some h2, Some h3, Some h4, Some h5]"
    and "sector [h0, h1, h2, h3, h4, h5] hue = sector [h0, h1, h2, h3, h4, h5] hue'"
    and "sin hue = sin hue'" "cos hue = cos hue'"
  shows "most_saturated_srgb hue = most_saturated_srgb hue'"
proof -
  obtain i j k where s: "sector [h0, h1, h2, h3, h4, h5] hue' = (i, j, k)"
    by (cases "sector [h0, h1, h2, h3, h4, h5] hue'") auto
  have s': "sector [h0, h1, h2, h3, h4, h5] hue = (i, j, k)"
    using assms(2) s by simp
  show ?thesis
    unfolding most_saturated_srgb_q[OF assms(1) s] most_saturated_srgb_q[OF assms(1) s'] assms(3,4)
    by (rule refl)
qed

lemma map_the_corner_hues:
  assumes "corner_hues = [Some h0, Some h1, Some h2, Some h3, Some h4, Some h5]"
  shows "map the corner_hues = [h0, h1, h2, h3, h4, h5]"
  unfolding assms by simp

lemma most_saturated_in_srgb_same_sector:
  assumes "sector (map the corner_hues) (hue + 2 * pi) = sector (map the corner_hues) hue"
  shows "most_saturated_in_srgb (hue + 2 * pi) = most_saturated_in_srgb hue"
proof (rule corner_hues_range)
  fix h0 h1 h2 h3 h4 h5
  assume h: "corner_hues = [Some h0, Some h1, Some h2, Some h3, Some h4, Some h5]"
  have "most_saturated_srgb (hue + 2 * pi) = most_saturated_srgb hue"
    by (rule most_saturated_srgb_sector[OF h assms[unfolded map_the_corner_hues[OF h]]]) simp_all
  then show ?thesis
    by (simp add: most_saturated_in_srgb_def)
qed

lemma sector_last:
  assumes "corner_hues = [Some h0, Some h1, Some h2, Some h3, Some h4, Some h5]"
    and "h5 \<le> hue"
  shows "sector (map the corner_hues) hue = (2, 1, 0)"
proof (rule corner_hues_range)
  fix k0 k1 k2 k3 k4 k5
  assume k: "corner_hues = [Some k0, Some k1, Some k2, Some k3, Some k4, Some k5]"
    and r: "k0 < pi / 2" "k1 < pi / 2" "k2 < pi" "k3 < 3 * pi / 2" "k4 < 3 * pi / 2" "3 * pi / 2 < k5"
  have e: "k0 = h0" "k1 = h1" "k2 = h2" "k3 = h3" "k4 = h4" "k5 = h5"
    using k[unfolded assms(1)] by simp_all
  have "h0 \<le> hue" "h1 \<le> hue" "h2 \<le> hue" "h3 \<le> hue" "h4 \<le> hue"
    using r assms(2) pi_gt_zero unfolding e by linarith+
  then show ?thesis
    unfolding map_the_corner_hues[OF assms(1)] using assms(2) by (simp add: sector_def)
qed

lemma sector_first:
  assumes "corner_hues = [Some h0, Some h1, Some h2, Some h3, Some h4, Some h5]"
    and "hue < h0"
  shows "sector (map the corner_hues) hue = (2, 1, 0)"
  unfolding map_the_corner_hues[OF assms(1)] using assms(2) by (simp add: sector_def)

text \<open>
  The first and the last branch of the chain assign the same channels, so the period
  holds at and above the hue of magenta and, for a hue that is not negative, below
  the hue of red.
\<close>

lemma most_saturated_in_srgb_periodic_above_magenta:
  assumes "srgb_to_lch_hue 1 0 1 = Some h5" "h5 \<le> hue"
  shows "most_saturated_in_srgb (hue + 2 * pi) = most_saturated_in_srgb hue"
proof (rule corner_hues_range)
  fix k0 k1 k2 k3 k4 k5
  assume k: "corner_hues = [Some k0, Some k1, Some k2, Some k3, Some k4, Some k5]"
  have "k5 = h5" using k assms(1) by (simp add: corner_hues_def)
  then have k': "corner_hues = [Some k0, Some k1, Some k2, Some k3, Some k4, Some h5]"
    using k by simp
  have "h5 \<le> hue + 2 * pi" using assms(2) pi_gt_zero by linarith
  then show ?thesis
    using sector_last[OF k' assms(2)] sector_last[OF k', of "hue + 2 * pi"]
    by (intro most_saturated_in_srgb_same_sector) simp
qed

lemma most_saturated_in_srgb_periodic_below_red:
  assumes "srgb_to_lch_hue 1 0 0 = Some h0" "0 \<le> hue" "hue < h0"
  shows "most_saturated_in_srgb (hue + 2 * pi) = most_saturated_in_srgb hue"
proof (rule corner_hues_range)
  fix k0 k1 k2 k3 k4 k5
  assume k: "corner_hues = [Some k0, Some k1, Some k2, Some k3, Some k4, Some k5]"
    and r: "k5 < 2 * pi"
  have "k0 = h0" using k assms(1) by (simp add: corner_hues_def)
  then have lt: "hue < k0" using assms(3) by simp
  have "k5 \<le> hue + 2 * pi" using assms(2) r by linarith
  then show ?thesis
    using sector_first[OF k lt] sector_last[OF k, of "hue + 2 * pi"]
    by (intro most_saturated_in_srgb_same_sector) simp
qed

text \<open>
  Claim C2, amended.  \<open>most_saturated_in_srgb\<close> does not reduce its argument modulo
  \<open>2\<pi>\<close>: it uses \<open>hue\<close> through \<open>sin\<close> and \<open>cos\<close>, which have the period, and through the
  comparisons of \<open>hue\<close> itself with the six corner hues, which have not.  Whenever the
  chain of comparisons assigns the same channels \<open>i\<close>, \<open>j\<close>, \<open>k\<close> to \<open>h\<close> and to
  \<open>h + 2\<pi>\<close>, the two colours are equal in exact arithmetic (in \<open>float\<close>, up to the
  rounding of \<open>h + 2\<pi>\<close> and of its sine and cosine).  Nothing is said here about the
  hues where the assignments differ; at \<open>\<pi>\<close> the colours differ.
\<close>

theorem most_saturated_in_srgb_periodic_in_sector:
  assumes "sector (map the corner_hues) (hue + 2 * pi) = sector (map the corner_hues) hue"
  shows "most_saturated_in_srgb (hue + 2 * pi) = most_saturated_in_srgb hue"
proof (rule corner_hues_range)
  fix h0 h1 h2 h3 h4 h5
  assume h: "corner_hues = [Some h0, Some h1, Some h2, Some h3, Some h4, Some h5]"
  have "most_saturated_srgb (hue + 2 * pi) = most_saturated_srgb hue"
    by (rule most_saturated_srgb_sector[OF h assms[unfolded map_the_corner_hues[OF h]]]) simp_all
  then show ?thesis
    by (simp add: most_saturated_in_srgb_def)
qed

theorem most_saturated_in_srgb_periodic_in_sector_witness:
  "sector (map the corner_hues) (2 * pi + 2 * pi) = sector (map the corner_hues) (2 * pi)
   \<and> most_saturated_in_srgb (2 * pi + 2 * pi) = most_saturated_in_srgb (2 * pi)"
proof (rule corner_hues_range)
  fix h0 h1 h2 h3 h4 h5
  assume h: "corner_hues = [Some h0, Some h1, Some h2, Some h3, Some h4, Some h5]"
    and r: "h5 < 2 * pi"
  have a: "h5 \<le> 2 * pi" and b: "h5 \<le> 2 * pi + 2 * pi"
    using r pi_gt_zero by linarith+
  have s: "sector (map the corner_hues) (2 * pi + 2 * pi) = sector (map the corner_hues) (2 * pi)"
    unfolding sector_last[OF h a] sector_last[OF h b] by (rule refl)
  from most_saturated_in_srgb_periodic_in_sector[OF s] s show ?thesis by (rule conjI[rotated])
qed


lemma most_saturated_in_srgb_lightness:
  assumes ms: "most_saturated_srgb hue = Some [sr, sg, sb]"
  shows "\<exists>c. most_saturated_in_srgb hue = Some c \<and>
           luv_l c = 116 * root 3 ((21.26 * srgb_to_rgb_helper sr + 71.52 * srgb_to_rgb_helper sg
                                     + 7.22 * srgb_to_rgb_helper sb) / 100) - 16"
proof (rule most_saturated_in_srgb_total[of hue])
  fix sr' sg' sb' r g b x y z :: real
  assume ms': "most_saturated_srgb hue = Some [sr', sg', sb']"
    and rgb: "r = srgb_to_rgb_helper sr'" "g = srgb_to_rgb_helper sg'" "b = srgb_to_rgb_helper sb'"
    and xyz: "rgb_to_xyz r g b = (x, y, z)"
    and luv: "most_saturated_in_srgb hue =
       Some \<lparr>luv_l = 116 * root 3 (y / 100) - 16,
             luv_u = 13 * (116 * root 3 (y / 100) - 16) * (4 * x / (x + 15 * y + 3 * z) - d65_u_prime),
             luv_v = 13 * (116 * root 3 (y / 100) - 16) * (9 * y / (x + 15 * y + 3 * z) - d65_v_prime)\<rparr>"
  have e: "sr' = sr" "sg' = sg" "sb' = sb" using ms'[unfolded ms] by simp_all
  have "y = 21.26 * r + 71.52 * g + 7.22 * b"
    using xyz by (auto simp add: rgb_to_xyz_def)
  then show ?thesis
    unfolding luv using rgb e by simp
qed

text \<open>
  Claim C2, as stated, fails.  The hue \<open>\<pi>\<close> lies between the hues of green and cyan,
  where the solver sets green to 1 and red to 0; \<open>3\<pi>\<close> is above all six corner hues
  and takes the last branch, which sets red to 1 and green to 0.  The luminance of
  the first colour is at least \<open>71.52\<close>, that of the second at most \<open>28.48\<close>.
\<close>

theorem most_saturated_in_srgb_not_periodic_counterexample:
  "most_saturated_in_srgb (pi + 2 * pi) \<noteq> most_saturated_in_srgb pi"
proof (rule corner_hues_range)
  fix h0 h1 h2 h3 h4 h5
  assume h: "corner_hues = [Some h0, Some h1, Some h2, Some h3, Some h4, Some h5]"
    and r: "h0 < pi / 2" "h1 < pi / 2" "h2 < pi" "pi < h3" "h3 < 3 * pi / 2" "h4 < 3 * pi / 2"
      "h5 < 2 * pi"
  have s1: "sector [h0, h1, h2, h3, h4, h5] pi = (2, 0, 1)"
    using r pi_gt_zero by (simp add: sector_def)
  have "h5 \<le> pi + 2 * pi" using r pi_gt_zero by linarith
  then have s2: "sector [h0, h1, h2, h3, h4, h5] (pi + 2 * pi) = (2, 1, 0)"
    using sector_last[OF h] unfolding map_the_corner_hues[OF h] by simp
  obtain c1 where c1: "clamp_ext (fdiv_ext (- q_of (sin pi) (cos pi) 1) (q_of (sin pi) (cos pi) 2)) 0 1
      = Some c1" "0 \<le> c1" "c1 \<le> 1"
    using clamp_ext_range[of "- q_of (sin pi) (cos pi) 1" "q_of (sin pi) (cos pi) 2"]
      q_of_not_both_zero[of "sin pi" "cos pi" 2 1] by auto
  obtain c2 where c2: "clamp_ext (fdiv_ext (- q_of (sin (pi + 2 * pi)) (cos (pi + 2 * pi)) 0)
        (q_of (sin (pi + 2 * pi)) (cos (pi + 2 * pi)) 2)) 0 1 = Some c2" "0 \<le> c2" "c2 \<le> 1"
    using clamp_ext_range[of "- q_of (sin (pi + 2 * pi)) (cos (pi + 2 * pi)) 0"
        "q_of (sin (pi + 2 * pi)) (cos (pi + 2 * pi)) 2"]
      q_of_not_both_zero[of "sin (pi + 2 * pi)" "cos (pi + 2 * pi)" 2 0] by auto
  define b1 where "b1 = srgb_to_rgb_helper (rgb_to_srgb_helper c1)"
  define b2 where "b2 = srgb_to_rgb_helper (rgb_to_srgb_helper c2)"
  have b1: "0 \<le> b1" unfolding b1_def
    using srgb_to_rgb_helper_range rgb_to_srgb_helper_range[OF c1(2,3)] by blast
  have b2: "b2 \<le> 1" unfolding b2_def
    using srgb_to_rgb_helper_range rgb_to_srgb_helper_range[OF c2(2,3)] by blast
  have m1: "most_saturated_srgb pi = Some [0, 1, rgb_to_srgb_helper c1]"
    unfolding most_saturated_srgb_q[OF h s1] c1(1) by simp
  have m2: "most_saturated_srgb (pi + 2 * pi) = Some [1, 0, rgb_to_srgb_helper c2]"
    unfolding most_saturated_srgb_q[OF h s2] c2(1) by simp
  obtain a1 where a1: "most_saturated_in_srgb pi = Some a1"
      "luv_l a1 = 116 * root 3 ((71.52 + 7.22 * b1) / 100) - 16"
    using most_saturated_in_srgb_lightness[OF m1] unfolding b1_def by auto
  obtain a2 where a2: "most_saturated_in_srgb (pi + 2 * pi) = Some a2"
      "luv_l a2 = 116 * root 3 ((21.26 + 7.22 * b2) / 100) - 16"
    using most_saturated_in_srgb_lightness[OF m2] unfolding b2_def by auto
  have "(21.26 + 7.22 * b2) / 100 < (71.52 + 7.22 * b1) / 100"
    using b1 b2 by simp
  then have "root 3 ((21.26 + 7.22 * b2) / 100) < root 3 ((71.52 + 7.22 * b1) / 100)"
    by simp
  then have "luv_l a2 < luv_l a1" unfolding a1(2) a2(2) by simp
  then show ?thesis unfolding a1(1) a2(1) by auto
qed

section \<open>Back to sRGB: the bytes of a gamut boundary colour\<close>

lemma root3_cube: "root 3 a * root 3 a * root 3 a = a"
proof -
  have "root 3 a ^ 3 = a" by (rule odd_real_root_pow) simp
  then show ?thesis by (simp add: power3_eq_cube)
qed

text \<open>\<open>luv_to_xyz\<close> undoes \<open>xyz_to_luv\<close> above the linear segment of the lightness.\<close>

lemma luv_to_xyz_inverse:
  assumes "0 < x + 15 * y + 3 * z" "216 / 24389 < y / 100"
  defines "l \<equiv> 116 * root 3 (y / 100) - 16"
  shows "luv_to_xyz l (13 * l * (4 * x / (x + 15 * y + 3 * z) - d65_u_prime))
                      (13 * l * (9 * y / (x + 15 * y + 3 * z) - d65_v_prime)) = Some (x, y, z)"
proof -
  define S where "S = x + 15 * y + 3 * z"
  have S: "0 < S" using assms(1) by (simp add: S_def)
  have y: "0 < y" using assms(2) by simp
  have l: "8 < l" unfolding l_def by (rule lightness_above_8[OF assms(2)])
  have du: "fdiv (13 * l * (4 * x / S - d65_u_prime)) (13 * l) = Some (4 * x / S - d65_u_prime)"
    using l by (simp add: fdiv_def)
  have dv: "fdiv (13 * l * (9 * y / S - d65_v_prime)) (13 * l) = Some (9 * y / S - d65_v_prime)"
    using l by (simp add: fdiv_def)
  have tmp: "(l + 16) / 116 = root 3 (y / 100)" by (simp add: l_def)
  have yy: "d65_y * ((l + 16) / 116) * ((l + 16) / 116) * ((l + 16) / 116) = y"
    unfolding tmp using root3_cube[of "y / 100"] by (simp add: d65_y_def algebra_simps)
  have vp: "4 * (9 * y / S) \<noteq> 0" using S y by simp
  have xx: "fdiv (y * (9 * (4 * x / S))) (4 * (9 * y / S)) = Some x"
    using S y by (simp add: fdiv_def)
  have "12 * S - 12 * x - 180 * y = 36 * z" by (simp add: S_def)
  moreover have "12 - 3 * (4 * x / S) - 20 * (9 * y / S) = (12 * S - 12 * x - 180 * y) / S"
    using S by (simp add: field_simps)
  ultimately have "12 - 3 * (4 * x / S) - 20 * (9 * y / S) = 36 * z / S"
    by simp
  then have "y * (12 - 3 * (4 * x / S) - 20 * (9 * y / S)) / (4 * (9 * y / S)) = z"
    using S y by simp
  then have zz: "fdiv (y * (12 - 3 * (4 * x / S) - 20 * (9 * y / S))) (4 * (9 * y / S)) = Some z"
    using vp by (simp add: fdiv_def)
  have nl: "\<not> l \<le> 8" using l by simp
  show ?thesis
    unfolding luv_to_xyz_def S_def[symmetric]
    by (simp only: du dv Option.bind.bind_lunit Let_def diff_add_cancel nl if_False yy xx zz)
qed

lemma xyz_to_rgb_of_rgb:
  assumes "rgb_to_xyz r g b = (x, y, z)"
  shows "xyz_to_rgb x y z =
     (clamp (50000000171 / 50000000000 * r - 149 / 12500000000 * g + 17 / 20000000000 * b) 0 1,
      clamp (1393 / 100000000000 * r + 625000019 / 625000000 * g - 859 / 50000000000 * b) 0 1,
      clamp (- (79 / 4000000000) * r - 149 / 3125000000 * g + 49999997629 / 50000000000 * b) 0 1)"
proof -
  have x: "x = 41.24 * r + 35.76 * g + 18.05 * b"
    and y: "y = 21.26 * r + 71.52 * g + 7.22 * b"
    and z: "z = 1.93 * r + 11.92 * g + 95.05 * b"
    using assms by (auto simp add: rgb_to_xyz_def)
  have "(3.2406255 * x - 1.5372080 * y - 0.4986286 * z) / 100 =
        50000000171 / 50000000000 * r - 149 / 12500000000 * g + 17 / 20000000000 * b"
    unfolding x y z by (simp add: field_simps)
  moreover have "(- 0.9689307 * x + 1.8757561 * y + 0.0415175 * z) / 100 =
        1393 / 100000000000 * r + 625000019 / 625000000 * g - 859 / 50000000000 * b"
    unfolding x y z by (simp add: field_simps)
  moreover have "(0.0557101 * x - 0.2040211 * y + 1.0569959 * z) / 100 =
        - (79 / 4000000000) * r - 149 / 3125000000 * g + 49999997629 / 50000000000 * b"
    unfolding x y z by (simp add: field_simps)
  ultimately show ?thesis by (simp only: xyz_to_rgb_def)
qed

lemma byte_of_one:
  assumes "1 - 1 / 10 ^ 6 \<le> v" "v \<le> 1"
  shows "uchar_of_float (fround (rgb_to_srgb_helper v * 255)) = 255"
proof -
  have v: "0.0031308 < v" "0 < v" using assms(1) by simp_all
  have "v powr 1 \<le> v powr (1 / 2.4)"
    using v assms by (intro powr_mono') simp_all
  then have lo: "v \<le> v powr (1 / 2.4)" using v by simp
  have hi: "v powr (1 / 2.4) \<le> 1" using v assms by (intro powr_le1) simp_all
  define s where "s = rgb_to_srgb_helper v * 255"
  have s: "s = (1.055 * v powr (1 / 2.4) - 0.055) * 255"
    using v by (simp add: s_def rgb_to_srgb_helper_def)
  have "254.5 \<le> s" "s < 255.5"
    unfolding s using lo hi assms by simp_all
  then have "\<lfloor>s + 1 / 2\<rfloor> = 255" by linarith
  moreover have "0 \<le> s" using \<open>254.5 \<le> s\<close> by simp
  ultimately show ?thesis
    unfolding s_def[symmetric] by (simp add: fround_def uchar_of_float_def)
qed

lemma byte_of_zero:
  assumes "0 \<le> v" "v \<le> 1 / 10 ^ 6"
  shows "uchar_of_float (fround (rgb_to_srgb_helper v * 255)) = 0"
proof -
  define s where "s = rgb_to_srgb_helper v * 255"
  have s: "s = v * 12.92 * 255"
    using assms by (simp add: s_def rgb_to_srgb_helper_def)
  have "0 \<le> s" "s < 0.5"
    unfolding s using assms by simp_all
  then have "\<lfloor>s + 1 / 2\<rfloor> = 0" by linarith
  then show ?thesis
    unfolding s_def[symmetric] using \<open>0 \<le> s\<close> by (simp add: fround_def uchar_of_float_def)
qed

lemma clamp_near_zero:
  assumes "e \<le> 1 / 10 ^ 6"
  shows "0 \<le> clamp e 0 1 \<and> clamp e 0 1 \<le> 1 / 10 ^ 6"
  using assms by (simp add: clamp_def min_def max_def)

lemma clamp_near_one:
  assumes "1 - 1 / 10 ^ 6 \<le> e"
  shows "1 - 1 / 10 ^ 6 \<le> clamp e 0 1 \<and> clamp e 0 1 \<le> 1"
  using assms by (simp add: clamp_def min_def max_def)

lemma convert_boundary_bytes:
  assumes rng: "0 \<le> r" "r \<le> 1" "0 \<le> g" "g \<le> 1" "0 \<le> b" "b \<le> 1"
    and xyz: "rgb_to_xyz r g b = (x, y, z)"
    and S: "0 < x + 15 * y + 3 * z" and yr: "216 / 24389 < y / 100"
  defines "l \<equiv> 116 * root 3 (y / 100) - 16"
  shows "\<exists>b0 b1 b2.
     convert_colormap_entry
       \<lparr>luv_l = l, luv_u = 13 * l * (4 * x / (x + 15 * y + 3 * z) - d65_u_prime),
        luv_v = 13 * l * (9 * y / (x + 15 * y + 3 * z) - d65_v_prime)\<rparr> = Some [b0, b1, b2]
     \<and> (r = 0 \<longrightarrow> b0 = 0) \<and> (g = 0 \<longrightarrow> b1 = 0) \<and> (b = 0 \<longrightarrow> b2 = 0)
     \<and> (r = 1 \<longrightarrow> b0 = 255) \<and> (g = 1 \<longrightarrow> b1 = 255) \<and> (b = 1 \<longrightarrow> b2 = 255)"
proof -
  define r' where "r' = clamp (50000000171 / 50000000000 * r - 149 / 12500000000 * g + 17 / 20000000000 * b) 0 1"
  define g' where "g' = clamp (1393 / 100000000000 * r + 625000019 / 625000000 * g - 859 / 50000000000 * b) 0 1"
  define b' where "b' = clamp (- (79 / 4000000000) * r - 149 / 3125000000 * g + 49999997629 / 50000000000 * b) 0 1"
  have inv: "xyz_to_rgb x y z = (r', g', b')"
    unfolding r'_def g'_def b'_def by (rule xyz_to_rgb_of_rgb[OF xyz])
  have conv: "convert_colormap_entry
       \<lparr>luv_l = l, luv_u = 13 * l * (4 * x / (x + 15 * y + 3 * z) - d65_u_prime),
        luv_v = 13 * l * (9 * y / (x + 15 * y + 3 * z) - d65_v_prime)\<rparr> =
      Some [uchar_of_float (fround (rgb_to_srgb_helper r' * 255)),
            uchar_of_float (fround (rgb_to_srgb_helper g' * 255)),
            uchar_of_float (fround (rgb_to_srgb_helper b' * 255))]"
    unfolding convert_colormap_entry_def l_def LUVColor.select_convs luv_to_xyz_inverse[OF S yr]
    by (simp add: inv rgb_to_srgb_def)
  have r0: "r = 0 \<Longrightarrow> uchar_of_float (fround (rgb_to_srgb_helper r' * 255)) = 0"
  proof -
    assume "r = 0"
    then have "50000000171 / 50000000000 * r - 149 / 12500000000 * g + 17 / 20000000000 * b \<le> 1 / 10 ^ 6"
      using rng by simp
    from clamp_near_zero[OF this] show ?thesis
      unfolding r'_def[symmetric] using byte_of_zero by blast
  qed
  have g0: "g = 0 \<Longrightarrow> uchar_of_float (fround (rgb_to_srgb_helper g' * 255)) = 0"
  proof -
    assume "g = 0"
    then have "1393 / 100000000000 * r + 625000019 / 625000000 * g - 859 / 50000000000 * b \<le> 1 / 10 ^ 6"
      using rng by simp
    from clamp_near_zero[OF this] show ?thesis
      unfolding g'_def[symmetric] using byte_of_zero by blast
  qed
  have b0: "b = 0 \<Longrightarrow> uchar_of_float (fround (rgb_to_srgb_helper b' * 255)) = 0"
  proof -
    assume "b = 0"
    then have "- (79 / 4000000000) * r - 149 / 3125000000 * g + 49999997629 / 50000000000 * b \<le> 1 / 10 ^ 6"
      using rng by simp
    from clamp_near_zero[OF this] show ?thesis
      unfolding b'_def[symmetric] using byte_of_zero by blast
  qed
  have r1: "r = 1 \<Longrightarrow> uchar_of_float (fround (rgb_to_srgb_helper r' * 255)) = 255"
  proof -
    assume "r = 1"
    then have "1 - 1 / 10 ^ 6 \<le> 50000000171 / 50000000000 * r - 149 / 12500000000 * g + 17 / 20000000000 * b"
      using rng by simp
    from clamp_near_one[OF this] show ?thesis
      unfolding r'_def[symmetric] using byte_of_one by blast
  qed
  have g1: "g = 1 \<Longrightarrow> uchar_of_float (fround (rgb_to_srgb_helper g' * 255)) = 255"
  proof -
    assume "g = 1"
    then have "1 - 1 / 10 ^ 6 \<le> 1393 / 100000000000 * r + 625000019 / 625000000 * g - 859 / 50000000000 * b"
      using rng by simp
    from clamp_near_one[OF this] show ?thesis
      unfolding g'_def[symmetric] using byte_of_one by blast
  qed
  have b1: "b = 1 \<Longrightarrow> uchar_of_float (fround (rgb_to_srgb_helper b' * 255)) = 255"
  proof -
    assume "b = 1"
    then have "1 - 1 / 10 ^ 6 \<le> - (79 / 4000000000) * r - 149 / 3125000000 * g + 49999997629 / 50000000000 * b"
      using rng by simp
    from clamp_near_one[OF this] show ?thesis
      unfolding b'_def[symmetric] using byte_of_one by blast
  qed
  show ?thesis
    unfolding conv using r0 g0 b0 r1 g1 b1 by blast
qed

text \<open>
  Claim C1.  For every hue the solver returns a colour.  It is the LUV colour of an
  sRGB triple with one channel exactly 0 and one exactly 1, and converting it back
  with \<open>convert_colormap_entry\<close> (the only path from LUV to sRGB in the program)
  gives the byte 0 in a channel that was 0 and the byte 255 in a channel that was 1.
  The bytes are where "within rounding" is exact: the matrix of \<open>xyz_to_rgb\<close> is
  not the exact inverse of the matrix of \<open>rgb_to_xyz\<close>, so before the rounding to a
  byte a channel that was 1 can come back as \<open>0.99999995\<close>.
\<close>

theorem most_saturated_in_srgb_on_boundary:
  "\<exists>sr sg sb c b0 b1 b2.
     most_saturated_srgb hue = Some [sr, sg, sb] \<and>
     most_saturated_in_srgb hue = Some c \<and>
     convert_colormap_entry c = Some [b0, b1, b2] \<and>
     (sr = 0 \<and> b0 = 0 \<or> sg = 0 \<and> b1 = 0 \<or> sb = 0 \<and> b2 = 0) \<and>
     (sr = 1 \<and> b0 = 255 \<or> sg = 1 \<and> b1 = 255 \<or> sb = 1 \<and> b2 = 255)"
proof (rule most_saturated_in_srgb_total[of hue])
  fix sr sg sb r g b x y z :: real
  assume ms: "most_saturated_srgb hue = Some [sr, sg, sb]"
    and rng: "0 \<le> r" "r \<le> 1" "0 \<le> g" "g \<le> 1" "0 \<le> b" "b \<le> 1"
    and zero: "sr = 0 \<or> sg = 0 \<or> sb = 0" and one: "sr = 1 \<or> sg = 1 \<or> sb = 1"
    and z0: "(sr = 0 \<longrightarrow> r = 0) \<and> (sg = 0 \<longrightarrow> g = 0) \<and> (sb = 0 \<longrightarrow> b = 0)"
    and o1: "(sr = 1 \<longrightarrow> r = 1) \<and> (sg = 1 \<longrightarrow> g = 1) \<and> (sb = 1 \<longrightarrow> b = 1)"
    and xyz: "rgb_to_xyz r g b = (x, y, z)"
    and y: "7.22 \<le> y" and S: "0 < x + 15 * y + 3 * z"
    and luv: "most_saturated_in_srgb hue =
       Some \<lparr>luv_l = 116 * root 3 (y / 100) - 16,
             luv_u = 13 * (116 * root 3 (y / 100) - 16) * (4 * x / (x + 15 * y + 3 * z) - d65_u_prime),
             luv_v = 13 * (116 * root 3 (y / 100) - 16) * (9 * y / (x + 15 * y + 3 * z) - d65_v_prime)\<rparr>"
  have yr: "216 / 24389 < y / 100" using y by simp
  obtain b0 b1 b2 where cv: "convert_colormap_entry
       \<lparr>luv_l = 116 * root 3 (y / 100) - 16,
        luv_u = 13 * (116 * root 3 (y / 100) - 16) * (4 * x / (x + 15 * y + 3 * z) - d65_u_prime),
        luv_v = 13 * (116 * root 3 (y / 100) - 16) * (9 * y / (x + 15 * y + 3 * z) - d65_v_prime)\<rparr>
       = Some [b0, b1, b2]"
    and by0: "(r = 0 \<longrightarrow> b0 = 0) \<and> (g = 0 \<longrightarrow> b1 = 0) \<and> (b = 0 \<longrightarrow> b2 = 0)"
    and by1: "(r = 1 \<longrightarrow> b0 = 255) \<and> (g = 1 \<longrightarrow> b1 = 255) \<and> (b = 1 \<longrightarrow> b2 = 255)"
    using convert_boundary_bytes[OF rng xyz S yr] by blast
  have "sr = 0 \<and> b0 = 0 \<or> sg = 0 \<and> b1 = 0 \<or> sb = 0 \<and> b2 = 0"
    using zero z0 by0 by blast
  moreover have "sr = 1 \<and> b0 = 255 \<or> sg = 1 \<and> b1 = 255 \<or> sb = 1 \<and> b2 = 255"
    using one o1 by1 by blast
  ultimately show ?thesis
    using ms luv cv by blast
qed


section \<open>The maximal saturation and the qualitative generator\<close>

lemma most_saturated_in_srgb_lightness_range:
  obtains c where "most_saturated_in_srgb h = Some c" "8 < luv_l c" "luv_l c < 100"
proof (rule most_saturated_in_srgb_total[of h])
  fix x y z :: real
  assume y: "7.22 \<le> y" "y \<le> 92.78"
    and luv: "most_saturated_in_srgb h =
       Some \<lparr>luv_l = 116 * root 3 (y / 100) - 16,
             luv_u = 13 * (116 * root 3 (y / 100) - 16) * (4 * x / (x + 15 * y + 3 * z) - d65_u_prime),
             luv_v = 13 * (116 * root 3 (y / 100) - 16) * (9 * y / (x + 15 * y + 3 * z) - d65_v_prime)\<rparr>"
  have "8 < 116 * root 3 (y / 100) - 16"
    by (rule lightness_above_8) (use y in simp)
  moreover have "116 * root 3 (y / 100) - 16 < 100"
    by (rule lightness_below_100) (use y in simp)
  ultimately show thesis
    using that[OF luv] by simp
qed

lemma luv_saturation_gray [simp]: "luv_saturation l 0 0 = 0"
  by (simp add: luv_saturation_def lch_saturation_def hypot_def)

lemma Smax_total:
  obtains c where "most_saturated_in_srgb h = Some c" "8 < luv_l c" "luv_l c < 100"
    "Smax l h = Some ((if luv_l c < l then (100 - l) / (100 - luv_l c) else l / luv_l c)
                        * luv_saturation (luv_l c) (luv_u c) (luv_v c))"
proof (rule most_saturated_in_srgb_lightness_range[of h])
  fix c
  assume c: "most_saturated_in_srgb h = Some c" "8 < luv_l c" "luv_l c < 100"
  have "Smax l h = Some ((if luv_l c < l then (100 - l) / (100 - luv_l c) else l / luv_l c)
                        * luv_saturation (luv_l c) (luv_u c) (luv_v c))"
  proof (cases "luv_l c < l")
    case True
    then show ?thesis using c by (simp add: Smax_def fdiv_def Let_def)
  next
    case False
    have "(0 - l) / (0 - luv_l c) = l / luv_l c" by simp
    then show ?thesis using False c by (simp add: Smax_def fdiv_def Let_def)
  qed
  then show thesis using that c by blast
qed


lemma yellow_lh_defined: "\<exists>yl yh. yellow_lh = Some (yl, yh)"
  by (simp add: yellow_lh_def rgb_to_xyz_def xyz_to_luv_def u_prime_def v_prime_def fdiv_def
      Let_def split: prod.splits)

lemma red_saturation_defined:
  "\<exists>rs rl ru rv. red_saturation = Some rs
     \<and> (case rgb_to_xyz 1 0 0 of (x, y, z) \<Rightarrow> xyz_to_luv x y z) = Some (rl, ru, rv)
     \<and> rs = luv_saturation rl ru rv"
  by (simp add: red_saturation_def rgb_to_xyz_def xyz_to_luv_def u_prime_def v_prime_def fdiv_def
      Let_def)

text \<open>
  Claim C5.  For \<open>n \<ge> 2\<close> and every index \<open>i\<close>: the statics of \<open>BrewerQualitative\<close>
  are defined, \<open>rs\<close> being the LUV saturation of pure red; the loop runs with the
  parameters derived from them; and the colour of the pass \<open>i\<close> has the lightness
  \<open>cl\<close>, the hue \<open>ch\<close> and the chroma \<open>cl\<close> times
  \<open>min (Smax cl ch) (saturation * rs)\<close>, where \<open>Smax cl ch\<close> is always defined.
\<close>

theorem BrewerQualitative_saturation_clamp:
  assumes "2 \<le> n"
  shows "\<exists>yl yh rs rl ru rv.
     yellow_lh = Some (yl, yh) \<and> red_saturation = Some rs \<and>
     (case rgb_to_xyz 1 0 0 of (x, y, z) \<Rightarrow> xyz_to_luv x y z) = Some (rl, ru, rv) \<and>
     rs = luv_saturation rl ru rv \<and>
     BrewerQualitative n hue divergence contrast saturation brightness =
       BrewerQualitative_loop n 0 yh rs (hue / twopi) (divergence / twopi)
         (brightness * yl) ((1 - contrast) * (brightness * yl)) saturation [] \<and>
     (\<exists>ch cl sm.
        ch = fmod (twopi * (hue / twopi + of_int i / (of_int n - 1) * (divergence / twopi))) twopi \<and>
        cl = (1 - HueDiff ch yh / pi) * (brightness * yl)
               + HueDiff ch yh / pi * ((1 - contrast) * (brightness * yl)) \<and>
        Smax cl ch = Some sm \<and>
        BrewerQualitative_color n i yh rs (hue / twopi) (divergence / twopi)
            (brightness * yl) ((1 - contrast) * (brightness * yl)) saturation =
          Some \<lparr>luv_l = cl,
                luv_u = cl * min sm (saturation * rs) * cos ch,
                luv_v = cl * min sm (saturation * rs) * sin ch\<rparr>)"
proof -
  obtain yl yh where y: "yellow_lh = Some (yl, yh)"
    using yellow_lh_defined by blast
  obtain rs rl ru rv where r: "red_saturation = Some rs"
      "(case rgb_to_xyz 1 0 0 of (x, y, z) \<Rightarrow> xyz_to_luv x y z) = Some (rl, ru, rv)"
      "rs = luv_saturation rl ru rv"
    using red_saturation_defined by blast
  define ch where
    "ch = fmod (twopi * (hue / twopi + of_int i / (of_int n - 1) * (divergence / twopi))) twopi"
  define cl where "cl = (1 - HueDiff ch yh / pi) * (brightness * yl)
               + HueDiff ch yh / pi * ((1 - contrast) * (brightness * yl))"
  obtain sm where sm: "Smax cl ch = Some sm"
    by (rule Smax_total[of ch cl])
  have t: "fdiv (of_int i) (of_int n - 1) = Some (of_int i / (of_int n - 1))"
    using assms by (simp add: fdiv_def)
  have run: "BrewerQualitative n hue divergence contrast saturation brightness =
       BrewerQualitative_loop n 0 yh rs (hue / twopi) (divergence / twopi)
         (brightness * yl) ((1 - contrast) * (brightness * yl)) saturation []"
    by (simp add: BrewerQualitative_def y r(1) Let_def)
  have col: "BrewerQualitative_color n i yh rs (hue / twopi) (divergence / twopi)
            (brightness * yl) ((1 - contrast) * (brightness * yl)) saturation =
          Some \<lparr>luv_l = cl,
                luv_u = cl * min sm (saturation * rs) * cos ch,
                luv_v = cl * min sm (saturation * rs) * sin ch\<rparr>"
    unfolding BrewerQualitative_color_def t Option.bind.bind_lunit Let_def
      ch_def[symmetric] cl_def[symmetric] sm
    by (simp add: lch_to_luv_def lch_chroma_def mult.commute)
  show ?thesis
    using y r run ch_def cl_def sm col by blast
qed

theorem BrewerQualitative_saturation_clamp_witness:
  "2 \<le> (3::int) \<and>
   (\<exists>yl yh rs rl ru rv.
     yellow_lh = Some (yl, yh) \<and> red_saturation = Some rs \<and>
     (case rgb_to_xyz 1 0 0 of (x, y, z) \<Rightarrow> xyz_to_luv x y z) = Some (rl, ru, rv) \<and>
     rs = luv_saturation rl ru rv \<and>
     BrewerQualitative 3 0 pi 0 1 1 =
       BrewerQualitative_loop 3 0 yh rs (0 / twopi) (pi / twopi)
         (1 * yl) ((1 - 0) * (1 * yl)) 1 [] \<and>
     (\<exists>ch cl sm.
        ch = fmod (twopi * (0 / twopi + of_int 1 / (of_int 3 - 1) * (pi / twopi))) twopi \<and>
        cl = (1 - HueDiff ch yh / pi) * (1 * yl)
               + HueDiff ch yh / pi * ((1 - 0) * (1 * yl)) \<and>
        Smax cl ch = Some sm \<and>
        BrewerQualitative_color 3 1 yh rs (0 / twopi) (pi / twopi)
            (1 * yl) ((1 - 0) * (1 * yl)) 1 =
          Some \<lparr>luv_l = cl,
                luv_u = cl * min sm (1 * rs) * cos ch,
                luv_v = cl * min sm (1 * rs) * sin ch\<rparr>))"
proof (rule conjI)
  show h: "2 \<le> (3::int)" by simp
  show "\<exists>yl yh rs rl ru rv.
     yellow_lh = Some (yl, yh) \<and> red_saturation = Some rs \<and>
     (case rgb_to_xyz 1 0 0 of (x, y, z) \<Rightarrow> xyz_to_luv x y z) = Some (rl, ru, rv) \<and>
     rs = luv_saturation rl ru rv \<and>
     BrewerQualitative 3 0 pi 0 1 1 =
       BrewerQualitative_loop 3 0 yh rs (0 / twopi) (pi / twopi)
         (1 * yl) ((1 - 0) * (1 * yl)) 1 [] \<and>
     (\<exists>ch cl sm.
        ch = fmod (twopi * (0 / twopi + of_int 1 / (of_int 3 - 1) * (pi / twopi))) twopi \<and>
        cl = (1 - HueDiff ch yh / pi) * (1 * yl)
               + HueDiff ch yh / pi * ((1 - 0) * (1 * yl)) \<and>
        Smax cl ch = Some sm \<and>
        BrewerQualitative_color 3 1 yh rs (0 / twopi) (pi / twopi)
            (1 * yl) ((1 - 0) * (1 * yl)) 1 =
          Some \<lparr>luv_l = cl,
                luv_u = cl * min sm (1 * rs) * cos ch,
                luv_v = cl * min sm (1 * rs) * sin ch\<rparr>)"
    by (rule BrewerQualitative_saturation_clamp[OF h])
qed


section \<open>The inverse of the Bezier lightness\<close>

lemma B_sel:
  "luv_l (B b0 b1 b2 t) = (1 - t) * (1 - t) * luv_l b0 + 2 * (1 - t) * t * luv_l b1 + t * t * luv_l b2"
  "luv_u (B b0 b1 b2 t) = (1 - t) * (1 - t) * luv_u b0 + 2 * (1 - t) * t * luv_u b1 + t * t * luv_u b2"
  "luv_v (B b0 b1 b2 t) = (1 - t) * (1 - t) * luv_v b0 + 2 * (1 - t) * t * luv_v b1 + t * t * luv_v b2"
  by (simp_all add: B_def luv_plus_def luv_times_def Let_def)

lemma invB_Some:
  "invB b0 b1 b2 v = Some x \<longleftrightarrow>
     b0 - 2 * b1 + b2 \<noteq> 0 \<and>
     x = (b0 - b1 + sqrt (max (b1 * b1 - b0 * b2 + (b0 - 2 * b1 + b2) * v) 0)) / (b0 - 2 * b1 + b2)"
  by (auto simp add: invB_def fdiv_def)

lemma bezier_at_root:
  fixes a b0 b1 b2 r v x :: real
  assumes "a \<noteq> 0" "a = b0 - 2 * b1 + b2" "r * r = b1 * b1 - b0 * b2 + a * v" "a * x = b0 - b1 + r"
  shows "(1 - x) * (1 - x) * b0 + 2 * (1 - x) * x * b1 + x * x * b2 = v"
proof -
  have "a * ((1 - x) * (1 - x) * b0 + 2 * (1 - x) * x * b1 + x * x * b2) = a * v"
    using assms(2-4) by algebra
  then show ?thesis using assms(1) by simp
qed

lemma bezier_at_vertex:
  fixes a b0 b1 b2 x :: real
  assumes "a \<noteq> 0" "a = b0 - 2 * b1 + b2" "a * x = b0 - b1"
  shows "(1 - x) * (1 - x) * b0 + 2 * (1 - x) * x * b1 + x * x * b2 = (b0 * b2 - b1 * b1) / a"
proof -
  have "a * ((1 - x) * (1 - x) * b0 + 2 * (1 - x) * x * b1 + x * x * b2) = b0 * b2 - b1 * b1"
    using assms(2-3) by algebra
  then show ?thesis using assms(1) by (simp add: field_simps)
qed

lemma invB_le_one:
  assumes "invB b0 b1 b2 v = Some x" "b1 \<le> b2" "v \<le> b2"
  shows "x \<le> 1"
proof -
  define a where "a = b0 - 2 * b1 + b2"
  define D where "D = b1 * b1 - b0 * b2 + a * v"
  define s where "s = sqrt (max D 0)"
  have a: "a \<noteq> 0" and x: "x = (b0 - b1 + s) / a"
    using assms(1) unfolding invB_Some a_def D_def s_def by simp_all
  have id: "D - (b2 - b1) * (b2 - b1) = a * (v - b2)"
    unfolding D_def a_def by algebra
  show ?thesis
  proof (cases "0 < a")
    case True
    have "a * (v - b2) \<le> 0" using True assms(3) by (simp add: mult_le_0_iff)
    then have "max D 0 \<le> (b2 - b1)\<^sup>2"
      using id by (simp add: power2_eq_square)
    then have "s \<le> b2 - b1"
      unfolding s_def using assms(2) by (intro real_le_lsqrt) simp_all
    then have "b0 - b1 + s \<le> a" unfolding a_def by linarith
    then show ?thesis unfolding x using True by simp
  next
    case False
    then have neg: "a < 0" using a by simp
    have "0 \<le> a * (v - b2)" using neg assms(3) by (simp add: zero_le_mult_iff)
    then have "(b2 - b1)\<^sup>2 \<le> max D 0"
      using id by (simp add: power2_eq_square)
    then have "b2 - b1 \<le> s"
      unfolding s_def by (rule real_le_rsqrt)
    then have "a \<le> b0 - b1 + s" unfolding a_def by linarith
    then show ?thesis unfolding x using neg by (simp add: divide_le_eq)
  qed
qed

lemma invB_pos:
  assumes "invB b0 b1 b2 v = Some x" "b0 \<le> b1" "b1 \<le> b2" "b0 < v"
  shows "0 < x"
proof -
  define a where "a = b0 - 2 * b1 + b2"
  define D where "D = b1 * b1 - b0 * b2 + a * v"
  define s where "s = sqrt (max D 0)"
  have a: "a \<noteq> 0" and x: "x = (b0 - b1 + s) / a"
    using assms(1) unfolding invB_Some a_def D_def s_def by simp_all
  have id: "D - (b1 - b0) * (b1 - b0) = a * (v - b0)"
    unfolding D_def a_def by algebra
  show ?thesis
  proof (cases "0 < a")
    case True
    have "0 < a * (v - b0)" using True assms(4) by simp
    then have "(b1 - b0)\<^sup>2 < max D 0"
      using id by (simp add: power2_eq_square)
    then have "b1 - b0 < s"
      unfolding s_def by (rule real_less_rsqrt)
    then have "0 < b0 - b1 + s" by linarith
    then show ?thesis unfolding x using True by simp
  next
    case False
    then have neg: "a < 0" using a by simp
    have b: "b0 < b1" using neg assms(3) unfolding a_def by linarith
    have "a * (v - b0) < 0" using neg assms(4) by (simp add: mult_less_0_iff)
    then have "D < (b1 - b0)\<^sup>2"
      using id by (simp add: power2_eq_square)
    moreover have "0 < (b1 - b0)\<^sup>2" using b by simp
    ultimately have "max D 0 < (b1 - b0)\<^sup>2" by simp
    then have "s < b1 - b0"
      unfolding s_def using b by (intro real_less_lsqrt) simp_all
    then have "b0 - b1 + s < 0" by linarith
    then show ?thesis unfolding x using neg by (simp add: zero_less_divide_iff)
  qed
qed

lemma invB_value:
  assumes "invB b0 b1 b2 v = Some x"
  shows "(1 - x) * (1 - x) * b0 + 2 * (1 - x) * x * b1 + x * x * b2 =
     (if 0 \<le> b1 * b1 - b0 * b2 + (b0 - 2 * b1 + b2) * v then v
      else (b0 * b2 - b1 * b1) / (b0 - 2 * b1 + b2))"
proof -
  define a where "a = b0 - 2 * b1 + b2"
  define D where "D = b1 * b1 - b0 * b2 + a * v"
  have a: "a \<noteq> 0" and x: "x = (b0 - b1 + sqrt (max D 0)) / a"
    using assms(1) unfolding invB_Some a_def D_def by simp_all
  have ax: "a * x = b0 - b1 + sqrt (max D 0)" unfolding x using a by simp
  show ?thesis
  proof (cases "0 \<le> D")
    case True
    then have "sqrt (max D 0) * sqrt (max D 0) = b1 * b1 - b0 * b2 + a * v"
      by (simp add: D_def)
    from bezier_at_root[OF a a_def this ax] show ?thesis
      using True unfolding D_def a_def by simp
  next
    case False
    then have "a * x = b0 - b1" using ax by (simp add: max_def)
    from bezier_at_vertex[OF a a_def this] show ?thesis
      using False unfolding D_def a_def by simp
  qed
qed

lemma get_colormap_entry_lightness:
  assumes ord: "luv_l p0 = 0" "0 \<le> luv_l q0" "luv_l q0 \<le> luv_l q1" "luv_l q1 \<le> luv_l q2"
      "luv_l q2 \<le> luv_l p2"
    and e: "get_colormap_entry t p0 p2 q0 q1 q2 contrast brightness = Some c"
  shows "luv_l c = entry_lightness (luv_l q0) (luv_l q1) (luv_l q2) (luv_l p2)
                     (target_lightness t contrast brightness)"
proof -
  define l where "l = target_lightness t contrast brightness"
  define Q0 Q1 Q2 P2 where "Q0 = luv_l q0" and "Q1 = luv_l q1" and "Q2 = luv_l q2" and "P2 = luv_l p2"
  note ord' = ord[folded Q0_def Q1_def Q2_def P2_def]
  show ?thesis
  proof (cases "l \<le> Q1")
    case True
    obtain x where x: "invB 0 Q0 Q1 l = Some x"
      and c: "c = (if 0.5 * x \<le> 0.5 then B p0 q0 q1 (2 * (0.5 * x)) else B q1 q2 p2 (2 * (0.5 * x - 0.5)))"
      using e True unfolding get_colormap_entry_def l_def[symmetric] Q1_def ord(1) Q0_def
      by (auto simp add: Let_def Option.bind_eq_Some_conv)
    have x1: "x \<le> 1" by (rule invB_le_one[OF x ord'(3) True])
    have c': "c = B p0 q0 q1 x" using c x1 by simp
    define a where "a = Q1 - 2 * Q0"
    have a: "a \<noteq> 0" using x unfolding invB_Some a_def by simp
    have val: "luv_l c = (if 0 \<le> Q0 * Q0 + a * l then l else - (Q0 * Q0) / a)"
      unfolding c' B_sel(1) ord(1) using invB_value[OF x]
      by (simp add: Q0_def Q1_def a_def)
    have "luv_l c = (if 0 < a then max l (- (Q0 * Q0) / a) else l)"
    proof (cases "0 < a")
      case pos: True
      have "(- (Q0 * Q0) / a \<le> l) = (- (Q0 * Q0) \<le> l * a)"
        using pos by (rule pos_divide_le_eq)
      also have "\<dots> = (0 \<le> Q0 * Q0 + a * l)"
        by (auto simp add: mult.commute)
      finally show ?thesis unfolding val using pos by (auto simp add: max_def)
    next
      case False
      then have neg: "a < 0" using a by simp
      have "a * Q1 \<le> a * l" using neg True by (simp add: mult_le_cancel_left)
      moreover have "Q0 * Q0 + a * Q1 = (Q1 - Q0) * (Q1 - Q0)" unfolding a_def by algebra
      moreover have "0 \<le> (Q1 - Q0) * (Q1 - Q0)" by simp
      ultimately have "0 \<le> Q0 * Q0 + a * l" by linarith
      then show ?thesis unfolding val using neg by simp
    qed
    then show ?thesis
      using True unfolding entry_lightness_def l_def[symmetric] Q0_def[symmetric] Q1_def[symmetric]
        Q2_def[symmetric] P2_def[symmetric] a_def by simp
  next
    case False
    then have lQ: "Q1 < l" by simp
    obtain x where x: "invB Q1 Q2 P2 l = Some x"
      and c: "c = (if 0.5 * x + 0.5 \<le> 0.5 then B p0 q0 q1 (2 * (0.5 * x + 0.5))
                   else B q1 q2 p2 (2 * (0.5 * x + 0.5 - 0.5)))"
      using e False unfolding get_colormap_entry_def l_def[symmetric] Q1_def Q2_def P2_def
      by (auto simp add: Let_def Option.bind_eq_Some_conv)
    have x0: "0 < x" by (rule invB_pos[OF x ord'(4) ord'(5) lQ])
    have c': "c = B q1 q2 p2 x" using c x0 by simp
    define a where "a = Q1 - 2 * Q2 + P2"
    have a: "a \<noteq> 0" using x unfolding invB_Some a_def by simp
    have val: "luv_l c = (if 0 \<le> Q2 * Q2 - Q1 * P2 + a * l then l else (Q1 * P2 - Q2 * Q2) / a)"
      unfolding c' B_sel(1) using invB_value[OF x]
      by (simp add: Q1_def Q2_def P2_def a_def)
    have id: "Q2 * Q2 - Q1 * P2 + a * l = (Q2 - Q1) * (Q2 - Q1) + a * (l - Q1)"
      unfolding a_def by algebra
    have "luv_l c = (if 0 \<le> a then l else min l ((Q1 * P2 - Q2 * Q2) / a))"
    proof (cases "0 < a")
      case pos: True
      have "0 \<le> a * (l - Q1)" using pos lQ by simp
      moreover have "0 \<le> (Q2 - Q1) * (Q2 - Q1)" by simp
      ultimately have "0 \<le> Q2 * Q2 - Q1 * P2 + a * l" unfolding id by linarith
      then show ?thesis unfolding val using pos by simp
    next
      case False
      then have neg: "a < 0" using a by simp
      have "(l \<le> (Q1 * P2 - Q2 * Q2) / a) = (Q1 * P2 - Q2 * Q2 \<le> l * a)"
        using neg by (rule neg_le_divide_eq)
      also have "\<dots> = (0 \<le> Q2 * Q2 - Q1 * P2 + a * l)"
        by (auto simp add: mult.commute)
      finally show ?thesis unfolding val using neg by (auto simp add: min_def)
    qed
    then show ?thesis
      using False unfolding entry_lightness_def l_def[symmetric] Q0_def[symmetric] Q1_def[symmetric]
        Q2_def[symmetric] P2_def[symmetric] a_def by simp
  qed
qed

lemma entry_lightness_mono:
  assumes ord: "0 \<le> Q0" "Q0 \<le> Q1" "Q1 \<le> Q2" "Q2 \<le> P2" and l: "l \<le> l'"
  shows "entry_lightness Q0 Q1 Q2 P2 l \<le> entry_lightness Q0 Q1 Q2 P2 l'"
proof -
  have m1: "- (Q0 * Q0) / (Q1 - 2 * Q0) \<le> 0" if "0 < Q1 - 2 * Q0"
    using that by (simp add: divide_le_0_iff)
  have m2: "Q1 \<le> (Q1 * P2 - Q2 * Q2) / (Q1 - 2 * Q2 + P2)" if neg: "Q1 - 2 * Q2 + P2 < 0"
  proof -
    have "Q1 * P2 - Q2 * Q2 - Q1 * (Q1 - 2 * Q2 + P2) = - ((Q2 - Q1) * (Q2 - Q1))" by algebra
    moreover have "0 \<le> (Q2 - Q1) * (Q2 - Q1)" by simp
    ultimately have "Q1 * P2 - Q2 * Q2 \<le> Q1 * (Q1 - 2 * Q2 + P2)" by linarith
    then show ?thesis using neg by (simp add: le_divide_eq mult.commute)
  qed
  have Q1: "0 \<le> Q1" using ord by linarith
  show ?thesis
  proof (cases "l' \<le> Q1")
    case True
    then show ?thesis using l unfolding entry_lightness_def by (auto simp add: max_def)
  next
    case hi: False
    show ?thesis
    proof (cases "l \<le> Q1")
      case True
      have lo: "entry_lightness Q0 Q1 Q2 P2 l \<le> Q1"
      proof (cases "0 < Q1 - 2 * Q0")
        case pos: True
        define m where "m = - (Q0 * Q0) / (Q1 - 2 * Q0)"
        have "entry_lightness Q0 Q1 Q2 P2 l = max l m"
          using True pos unfolding entry_lightness_def m_def by simp
        moreover have "m \<le> 0" unfolding m_def by (rule m1[OF pos])
        ultimately show ?thesis using True Q1 by simp
      next
        case False
        then show ?thesis using True unfolding entry_lightness_def by simp
      qed
      have "Q1 \<le> entry_lightness Q0 Q1 Q2 P2 l'"
      proof (cases "0 \<le> Q1 - 2 * Q2 + P2")
        case True
        then show ?thesis using hi unfolding entry_lightness_def by simp
      next
        case False
        then have neg: "Q1 - 2 * Q2 + P2 < 0" by simp
        define m where "m = (Q1 * P2 - Q2 * Q2) / (Q1 - 2 * Q2 + P2)"
        have "entry_lightness Q0 Q1 Q2 P2 l' = min l' m"
          using hi False unfolding entry_lightness_def m_def by simp
        moreover have "Q1 \<le> m" unfolding m_def by (rule m2[OF neg])
        ultimately show ?thesis using hi by simp
      qed
      then show ?thesis using lo by linarith
    next
      case False
      then show ?thesis using hi l unfolding entry_lightness_def by (auto simp add: min_def)
    qed
  qed
qed

section \<open>The colour points\<close>

lemma get_bright_point_eq:
  "get_bright_point =
     Some \<lparr>luv_l = 116 * root 3 (92.78 / 100) - 16,
           luv_u = 13 * (116 * root 3 (92.78 / 100) - 16) * (4 * 77 / (77 + 15 * 92.78 + 3 * 13.85) - d65_u_prime),
           luv_v = 13 * (116 * root 3 (92.78 / 100) - 16) * (9 * 92.78 / (77 + 15 * 92.78 + 3 * 13.85) - d65_v_prime)\<rparr>"
proof -
  have x: "rgb_to_xyz 1 1 0 = (77, 92.78, 13.85)" by (simp add: rgb_to_xyz_def)
  show ?thesis
    unfolding get_bright_point_def x using xyz_to_luv_rgb[OF x] by simp
qed

lemma bright_point_lch_defined:
  obtains pb pbh pbs where "bright_point_lch = Some (pb, pbh, pbs)"
    "luv_l pb = 116 * root 3 (92.78 / 100) - 16" "0 \<le> pbs"
proof -
  define pb where "pb = the get_bright_point"
  have pb: "get_bright_point = Some pb" "luv_l pb = 116 * root 3 (92.78 / 100) - 16"
    unfolding pb_def get_bright_point_eq by simp_all
  define pbh where "pbh = snd (luv_to_lch (luv_u pb) (luv_v pb))"
  define pbs where "pbs = lch_saturation (luv_l pb) (fst (luv_to_lch (luv_u pb) (luv_v pb)))"
  have "bright_point_lch = Some (pb, pbh, pbs)"
    unfolding bright_point_lch_def pb(1) pbh_def pbs_def
    by (simp add: Let_def split: prod.splits)
  moreover have "0 \<le> pbs"
    unfolding pbs_def lch_saturation_def luv_to_lch_def hypot_def
    by (simp add: Let_def)
  ultimately show thesis using that pb(2) by blast
qed

lemma luv_lightness_mono:
  assumes "y \<le> y'"
  shows "116 * root 3 (y / 100) - 16 \<le> 116 * root 3 (y' / 100) - 16"
  using assms by simp

lemma most_saturated_lightness_le_bright:
  obtains p1 where "most_saturated_in_srgb hue = Some p1" "8 < luv_l p1"
    "luv_l p1 \<le> 116 * root 3 (92.78 / 100) - 16"
proof (rule most_saturated_in_srgb_total[of hue])
  fix x y z :: real
  assume y: "7.22 \<le> y" "y \<le> 92.78"
    and luv: "most_saturated_in_srgb hue =
       Some \<lparr>luv_l = 116 * root 3 (y / 100) - 16,
             luv_u = 13 * (116 * root 3 (y / 100) - 16) * (4 * x / (x + 15 * y + 3 * z) - d65_u_prime),
             luv_v = 13 * (116 * root 3 (y / 100) - 16) * (9 * y / (x + 15 * y + 3 * z) - d65_v_prime)\<rparr>"
  have "8 < 116 * root 3 (y / 100) - 16"
    by (rule lightness_above_8) (use y in simp)
  moreover have "116 * root 3 (y / 100) - 16 \<le> 116 * root 3 (92.78 / 100) - 16"
    by (rule luv_lightness_mono[OF y(2)])
  ultimately show thesis
    using that[OF luv] by simp
qed

lemma bright_lightness_below_100: "116 * root 3 (92.78 / 100) - 16 < (100::real)"
  by (rule lightness_below_100) simp

lemma get_color_points_shape:
  obtains cp p1 p2u p2v where
    "get_color_points hue s w pb pbh pbs = Some cp"
    "most_saturated_in_srgb hue = Some p1" "8 < luv_l p1"
    "luv_l p1 \<le> 116 * root 3 (92.78 / 100) - 16"
    "cp_p0 cp = \<lparr>luv_l = 0, luv_u = 0, luv_v = 0\<rparr>"
    "cp_p1 cp = p1"
    "cp_p2 cp = \<lparr>luv_l = (1 - w) * 100 + w * luv_l pb, luv_u = p2u, luv_v = p2v\<rparr>"
    "cp_q0 cp = luv_times s p1"
    "cp_q2 cp = luv_plus (luv_times (1 - s) (cp_p2 cp)) (luv_times s p1)"
    "cp_q1 cp = luv_times 0.5 (luv_plus (cp_q0 cp) (cp_q2 cp))"
proof (rule most_saturated_lightness_le_bright[of hue])
  fix p1
  assume p1: "most_saturated_in_srgb hue = Some p1" "8 < luv_l p1"
    "luv_l p1 \<le> 116 * root 3 (92.78 / 100) - 16"
  define p2l where "p2l = (1 - w) * 100 + w * luv_l pb"
  define p2h where "p2h = mix_hue w hue pbh"
  obtain sm where sm: "Smax p2l p2h = Some sm"
    by (rule Smax_total[of p2h p2l])
  define p2c where "p2c = lch_chroma p2l (min sm (w * s * pbs))"
  define p0 where "p0 = \<lparr>luv_l = 0, luv_u = 0, luv_v = 0\<rparr>"
  define p2 where "p2 = \<lparr>luv_l = p2l, luv_u = p2c * cos p2h, luv_v = p2c * sin p2h\<rparr>"
  define q0 where "q0 = luv_plus (luv_times (1 - s) p0) (luv_times s p1)"
  define q2 where "q2 = luv_plus (luv_times (1 - s) p2) (luv_times s p1)"
  define q1 where "q1 = luv_times 0.5 (luv_plus q0 q2)"
  define cp where "cp = \<lparr>cp_p0 = p0, cp_p1 = p1, cp_p2 = p2, cp_q0 = q0, cp_q1 = q1, cp_q2 = q2\<rparr>"
  have gcp: "get_color_points hue s w pb pbh pbs = Some cp"
    unfolding get_color_points_def lch_to_luv_def Let_def prod.case mult_zero_left p1(1)
      Option.bind.bind_lunit
    unfolding p2l_def[symmetric] p2h_def[symmetric]
    unfolding sm Option.bind.bind_lunit p2c_def[symmetric]
    unfolding p0_def[symmetric] p2_def[symmetric]
    unfolding q0_def[symmetric] q2_def[symmetric]
    unfolding q1_def[symmetric] cp_def
    by (rule refl)
  have q0: "q0 = luv_times s p1"
    unfolding q0_def p0_def luv_plus_def luv_times_def by simp
  show thesis
  proof (rule that[OF gcp p1])
    show "cp_p0 cp = \<lparr>luv_l = 0, luv_u = 0, luv_v = 0\<rparr>" by (simp add: cp_def p0_def)
    show "cp_p1 cp = p1" by (simp add: cp_def)
    show "cp_p2 cp = \<lparr>luv_l = (1 - w) * 100 + w * luv_l pb, luv_u = p2c * cos p2h, luv_v = p2c * sin p2h\<rparr>"
      by (simp add: cp_def p2_def p2l_def)
    show "cp_q0 cp = luv_times s p1" by (simp add: cp_def q0)
    show "cp_q2 cp = luv_plus (luv_times (1 - s) (cp_p2 cp)) (luv_times s p1)"
      by (simp add: cp_def q2_def)
    show "cp_q1 cp = luv_times 0.5 (luv_plus (cp_q0 cp) (cp_q2 cp))"
      by (simp add: cp_def q1_def)
  qed
qed

section \<open>Sequential maps: the lightness falls with the index\<close>

lemma luv_sel [simp]:
  "luv_l (luv_times a c) = a * luv_l c" "luv_u (luv_times a c) = a * luv_u c"
  "luv_v (luv_times a c) = a * luv_v c"
  "luv_l (luv_plus c d) = luv_l c + luv_l d" "luv_u (luv_plus c d) = luv_u c + luv_u d"
  "luv_v (luv_plus c d) = luv_v c + luv_v d"
  by (simp_all add: luv_times_def luv_plus_def)

text \<open>The lightnesses of the control points are in order for parameters in \<open>[0, 1]\<close>.\<close>

lemma color_points_order:
  assumes s: "0 \<le> s" "s \<le> 1" and w: "0 \<le> w" "w \<le> 1"
    and pb: "luv_l pb = 116 * root 3 (92.78 / 100) - 16"
    and cp: "get_color_points hue s w pb pbh pbs = Some cp"
  shows "luv_l (cp_p0 cp) = 0" "0 \<le> luv_l (cp_q0 cp)" "luv_l (cp_q0 cp) \<le> luv_l (cp_q1 cp)"
    "luv_l (cp_q1 cp) \<le> luv_l (cp_q2 cp)" "luv_l (cp_q2 cp) \<le> luv_l (cp_p2 cp)"
proof -
  have all: "luv_l (cp_p0 cp) = 0 \<and> 0 \<le> luv_l (cp_q0 cp) \<and> luv_l (cp_q0 cp) \<le> luv_l (cp_q1 cp)
    \<and> luv_l (cp_q1 cp) \<le> luv_l (cp_q2 cp) \<and> luv_l (cp_q2 cp) \<le> luv_l (cp_p2 cp)"
  proof (rule get_color_points_shape[of hue s w pb pbh pbs])
    fix cp' p1 p2u p2v
    assume cp': "get_color_points hue s w pb pbh pbs = Some cp'"
      and p1: "8 < luv_l p1" "luv_l p1 \<le> 116 * root 3 (92.78 / 100) - 16"
      and sh: "cp_p0 cp' = \<lparr>luv_l = 0, luv_u = 0, luv_v = 0\<rparr>"
        "cp_p2 cp' = \<lparr>luv_l = (1 - w) * 100 + w * luv_l pb, luv_u = p2u, luv_v = p2v\<rparr>"
        "cp_q0 cp' = luv_times s p1"
        "cp_q2 cp' = luv_plus (luv_times (1 - s) (cp_p2 cp')) (luv_times s p1)"
        "cp_q1 cp' = luv_times 0.5 (luv_plus (cp_q0 cp') (cp_q2 cp'))"
    have e: "cp' = cp" using cp cp' by simp
    define L1 where "L1 = luv_l p1"
    define Ly where "Ly = luv_l pb"
    define P2 where "P2 = (1 - w) * 100 + w * Ly"
    have Ly: "L1 \<le> Ly" "Ly < 100" "8 < L1"
      using p1 bright_lightness_below_100 unfolding L1_def Ly_def pb by simp_all
    have "w * Ly \<le> w * 100" using w Ly by (intro mult_left_mono) simp_all
    moreover have "(1 - w) * Ly \<le> (1 - w) * 100" using w Ly by (intro mult_left_mono) simp_all
    ultimately have P2: "Ly \<le> P2" "P2 \<le> 100" unfolding P2_def by (simp_all add: algebra_simps)
    have p0: "luv_l (cp_p0 cp) = 0" using sh(1) e by simp
    have q0: "luv_l (cp_q0 cp) = s * L1" using sh(3) e by (simp add: L1_def)
    have p2: "luv_l (cp_p2 cp) = P2" using sh(2) e by (simp add: P2_def Ly_def)
    have q2: "luv_l (cp_q2 cp) = (1 - s) * P2 + s * L1"
      using sh(4) e p2 by (simp add: L1_def)
    have q1: "luv_l (cp_q1 cp) = (s * L1 + ((1 - s) * P2 + s * L1)) / 2"
      using sh(5) e q0 q2 by simp
    define A B C where "A = s * L1" and "B = (1 - s) * P2" and "C = s * P2"
    have a: "0 \<le> A" unfolding A_def using s Ly by simp
    have b: "0 \<le> B" unfolding B_def using s P2 Ly by simp
    have c: "A \<le> C" unfolding A_def C_def using s P2 Ly by (intro mult_left_mono) simp_all
    have d: "B + C = P2" unfolding B_def C_def by (simp add: algebra_simps)
    show ?thesis
      unfolding p0 q0 q1 q2 p2 A_def[symmetric] B_def[symmetric] using a b c d
      by auto
  qed
  show "luv_l (cp_p0 cp) = 0" "0 \<le> luv_l (cp_q0 cp)" "luv_l (cp_q0 cp) \<le> luv_l (cp_q1 cp)"
    "luv_l (cp_q1 cp) \<le> luv_l (cp_q2 cp)" "luv_l (cp_q2 cp) \<le> luv_l (cp_p2 cp)"
    using all by simp_all
qed

lemma target_lightness_antimono:
  assumes "0 \<le> contrast" "t \<le> t'"
  shows "target_lightness t contrast brightness \<le> target_lightness t' contrast brightness"
proof -
  have "(1 - contrast) * brightness + t * contrast \<le> (1 - contrast) * brightness + t' * contrast"
    using assms by (simp add: mult_right_mono)
  then have "(0.2::real) powr ((1 - contrast) * brightness + t' * contrast)
        \<le> 0.2 powr ((1 - contrast) * brightness + t * contrast)"
    by (intro powr_mono') simp_all
  then show ?thesis unfolding target_lightness_def by simp
qed

lemma target_lightness_strict:
  assumes "0 < contrast" "t < t'"
  shows "target_lightness t contrast brightness < target_lightness t' contrast brightness"
proof -
  have "(1 - contrast) * brightness + t * contrast < (1 - contrast) * brightness + t' * contrast"
    using assms by simp
  then have "(0.2::real) powr ((1 - contrast) * brightness + t' * contrast)
        < 0.2 powr ((1 - contrast) * brightness + t * contrast)"
    by (intro powr_less_mono') simp_all
  then show ?thesis unfolding target_lightness_def by simp
qed

lemma BrewerSequential_entry_lightness:
  assumes "2 \<le> n" "0 \<le> saturation" "saturation \<le> 1" "0 \<le> warmth" "warmth \<le> 1"
    and e: "BrewerSequential_entry n i hue contrast saturation brightness warmth = Some c"
  shows "\<exists>Q0 Q1 Q2 P2. 0 \<le> Q0 \<and> Q0 \<le> Q1 \<and> Q1 \<le> Q2 \<and> Q2 \<le> P2 \<and>
     (\<forall>i' c'. BrewerSequential_entry n i' hue contrast saturation brightness warmth = Some c' \<longrightarrow>
        luv_l c' = entry_lightness Q0 Q1 Q2 P2
          (target_lightness (of_int (n - 1 - i') / (of_int n - 1)) contrast brightness))"
proof (rule bright_point_lch_defined)
  fix pb pbh pbs
  assume bp: "bright_point_lch = Some (pb, pbh, pbs)"
    and pb: "luv_l pb = 116 * root 3 (92.78 / 100) - 16"
  obtain cp where cp: "get_color_points hue saturation warmth pb pbh pbs = Some cp"
    using e unfolding BrewerSequential_entry_def bp
    by (auto simp add: Option.bind_eq_Some_conv)
  note ord = color_points_order[OF assms(2-5) pb cp]
  have "luv_l c' = entry_lightness (luv_l (cp_q0 cp)) (luv_l (cp_q1 cp)) (luv_l (cp_q2 cp))
          (luv_l (cp_p2 cp))
          (target_lightness (of_int (n - 1 - i') / (of_int n - 1)) contrast brightness)"
    if e': "BrewerSequential_entry n i' hue contrast saturation brightness warmth = Some c'"
    for i' c'
  proof -
    have t: "fdiv (of_int (n - 1 - i')) (of_int n - 1) = Some (of_int (n - 1 - i') / (of_int n - 1))"
      using assms(1) by (simp add: fdiv_def)
    have "get_colormap_entry (of_int (n - 1 - i') / (of_int n - 1)) (cp_p0 cp) (cp_p2 cp)
        (cp_q0 cp) (cp_q1 cp) (cp_q2 cp) contrast brightness = Some c'"
      using e' unfolding BrewerSequential_entry_def bp BrewerSequential_color_def t
      by (simp add: cp)
    from get_colormap_entry_lightness[OF ord this] show ?thesis .
  qed
  then show ?thesis using ord(2-5) by blast
qed

text \<open>
  In exact arithmetic, for \<open>n \<ge> 2\<close>, \<open>contrast > 0\<close>, saturation and warmth in
  \<open>[0, 1]\<close> and any brightness, the lightness of the LUV colour of the entries of
  \<open>BrewerSequential\<close> does not increase with the index wherever the entries are
  defined: for \<open>i \<le> j\<close> the entry \<open>j\<close> is at most as light as the entry \<open>i\<close>.  An
  entry is undefined when the divisor of \<open>invB\<close> is zero, which the section on the
  degenerate segment shows to happen for parameters in range; lemma
  \<open>BrewerSequential_entry_saturated_defined\<close> gives parameters where every entry is
  defined.
\<close>

lemma BrewerSequential_lightness_monotone:
  assumes "2 \<le> n" "0 < contrast" "0 \<le> saturation" "saturation \<le> 1" "0 \<le> warmth" "warmth \<le> 1"
    and "i \<le> j"
    and "BrewerSequential_entry n i hue contrast saturation brightness warmth = Some ci"
    and "BrewerSequential_entry n j hue contrast saturation brightness warmth = Some cj"
  shows "luv_l cj \<le> luv_l ci"
proof -
  obtain Q0 Q1 Q2 P2 where ord: "0 \<le> Q0" "Q0 \<le> Q1" "Q1 \<le> Q2" "Q2 \<le> P2"
    and val: "\<And>i' c'. BrewerSequential_entry n i' hue contrast saturation brightness warmth = Some c'
        \<Longrightarrow> luv_l c' = entry_lightness Q0 Q1 Q2 P2
          (target_lightness (of_int (n - 1 - i') / (of_int n - 1)) contrast brightness)"
    using BrewerSequential_entry_lightness[OF assms(1,3-6) assms(8)] by blast
  have "(of_int (n - 1 - j) :: real) / (of_int n - 1) \<le> of_int (n - 1 - i) / (of_int n - 1)"
    using assms(1,7) by (simp add: divide_right_mono)
  then have "target_lightness (of_int (n - 1 - j) / (of_int n - 1)) contrast brightness
      \<le> target_lightness (of_int (n - 1 - i) / (of_int n - 1)) contrast brightness"
    using assms(2) by (intro target_lightness_antimono) simp_all
  from entry_lightness_mono[OF ord this] show ?thesis
    unfolding val[OF assms(8)] val[OF assms(9)] .
qed

lemma get_colormap_entry_defined:
  assumes "luv_l p0 - 2 * luv_l q0 + luv_l q1 \<noteq> 0" "luv_l q1 - 2 * luv_l q2 + luv_l p2 \<noteq> 0"
  shows "\<exists>c. get_colormap_entry t p0 p2 q0 q1 q2 contrast brightness = Some c"
  using assms by (simp add: get_colormap_entry_def invB_def fdiv_def Let_def)

text \<open>Full saturation and no warmth: the three inner control points coincide.\<close>

lemma color_points_saturated:
  obtains cp p1 where
    "get_color_points hue 1 0 pb pbh pbs = Some cp"
    "most_saturated_in_srgb hue = Some p1" "8 < luv_l p1" "luv_l p1 < 100"
    "cp_p0 cp = \<lparr>luv_l = 0, luv_u = 0, luv_v = 0\<rparr>"
    "cp_q0 cp = p1" "cp_q1 cp = p1" "cp_q2 cp = p1"
    "cp_p2 cp = \<lparr>luv_l = 100, luv_u = 0, luv_v = 0\<rparr>"
proof (rule most_saturated_lightness_le_bright[of hue])
  fix p1
  assume p1: "most_saturated_in_srgb hue = Some p1" "8 < luv_l p1"
    "luv_l p1 \<le> 116 * root 3 (92.78 / 100) - 16"
  have lt: "luv_l p1 < 100" using p1(3) bright_lightness_below_100 by linarith
  have mh: "mix_hue 0 hue pbh = fmod hue twopi" by (simp add: mix_hue_def Let_def)
  obtain sm where sm: "Smax 100 (fmod hue twopi) = Some sm" "sm = 0"
  proof (rule Smax_total[of "fmod hue twopi" 100])
    fix c
    assume "luv_l c < 100"
      and "Smax 100 (fmod hue twopi) =
        Some ((if luv_l c < 100 then (100 - 100) / (100 - luv_l c) else 100 / luv_l c)
                * luv_saturation (luv_l c) (luv_u c) (luv_v c))"
    then have "Smax 100 (fmod hue twopi) = Some 0" by simp
    then show thesis using that by simp
  qed
  define cp where "cp = \<lparr>cp_p0 = \<lparr>luv_l = 0, luv_u = 0, luv_v = 0\<rparr>, cp_p1 = p1,
      cp_p2 = \<lparr>luv_l = 100, luv_u = 0, luv_v = 0\<rparr>, cp_q0 = p1, cp_q1 = p1, cp_q2 = p1\<rparr>"
  have "get_color_points hue 1 0 pb pbh pbs = Some cp"
    unfolding get_color_points_def
    by (simp add: Let_def lch_to_luv_def p1(1) mh sm lch_chroma_def luv_plus_def luv_times_def cp_def)
  then show thesis
    by (rule that[OF _ p1(1,2) lt]) (simp_all add: cp_def)
qed

lemma BrewerSequential_entry_saturated_defined:
  assumes "2 \<le> n"
  shows "\<exists>c. BrewerSequential_entry n i hue contrast 1 brightness 0 = Some c"
proof (rule bright_point_lch_defined)
  fix pb pbh pbs
  assume bp: "bright_point_lch = Some (pb, pbh, pbs)"
  show ?thesis
  proof (rule color_points_saturated[of hue pb pbh pbs])
    fix cp p1
    assume cp: "get_color_points hue 1 0 pb pbh pbs = Some cp"
      and p1: "8 < luv_l p1" "luv_l p1 < 100"
      and sh: "cp_p0 cp = \<lparr>luv_l = 0, luv_u = 0, luv_v = 0\<rparr>" "cp_q0 cp = p1" "cp_q1 cp = p1"
        "cp_q2 cp = p1" "cp_p2 cp = \<lparr>luv_l = 100, luv_u = 0, luv_v = 0\<rparr>"
    have t: "fdiv (of_int (n - 1 - i)) (of_int n - 1) = Some (of_int (n - 1 - i) / (of_int n - 1))"
      using assms by (simp add: fdiv_def)
    have "\<exists>c. get_colormap_entry (of_int (n - 1 - i) / (of_int n - 1)) (cp_p0 cp) (cp_p2 cp)
        (cp_q0 cp) (cp_q1 cp) (cp_q2 cp) contrast brightness = Some c"
      by (rule get_colormap_entry_defined) (use p1 in \<open>simp_all add: sh\<close>)
    then show ?thesis
      unfolding BrewerSequential_entry_def bp BrewerSequential_color_def t by (simp add: cp)
  qed
qed

lemma BrewerSequential_lightness_monotone_example:
  "2 \<le> (3::int) \<and> 0 < (1/2::real) \<and> 0 \<le> (1::real) \<and> (1::real) \<le> 1 \<and> 0 \<le> (0::real) \<and> (0::real) \<le> 1
   \<and> (0::int) \<le> 2
   \<and> (\<exists>ci cj. BrewerSequential_entry 3 0 0 (1/2) 1 1 0 = Some ci
        \<and> BrewerSequential_entry 3 2 0 (1/2) 1 1 0 = Some cj
        \<and> luv_l cj \<le> luv_l ci)"
proof -
  obtain ci where ci: "BrewerSequential_entry 3 0 0 (1/2) 1 1 0 = Some ci"
    using BrewerSequential_entry_saturated_defined[of 3 0 0 "1/2" 1] by auto
  obtain cj where cj: "BrewerSequential_entry 3 2 0 (1/2) 1 1 0 = Some cj"
    using BrewerSequential_entry_saturated_defined[of 3 2 0 "1/2" 1] by auto
  have "luv_l cj \<le> luv_l ci"
    by (rule BrewerSequential_lightness_monotone[OF _ _ _ _ _ _ _ ci cj]) simp_all
  then show ?thesis using ci cj by simp
qed


section \<open>Sequential maps: the degenerate segment\<close>

lemma target_lightness_first: "target_lightness 1 contrast 1 = 100"
  by (simp add: target_lightness_def)

lemma BrewerSequential_loop_first_None:
  assumes "0 < n" "BrewerSequential_color n 0 cp contrast brightness = None"
  shows "BrewerSequential_loop n 0 cp contrast brightness [] = None"
  using assms by (simp add: BrewerSequential_loop.simps)

text \<open>
  With \<open>warmth = 0\<close> the lightnesses of the control points of the second segment are
  \<open>q1.l = s l\<^sub>1 + 50 (1 - s)\<close>, \<open>q2.l = s l\<^sub>1 + 100 (1 - s)\<close> and \<open>p2.l = 100\<close>, where
  \<open>s\<close> is the saturation and \<open>l\<^sub>1\<close> the lightness of \<open>most_saturated_in_srgb hue\<close>.  The
  divisor \<open>q1.l - 2 q2.l + p2.l\<close> of \<open>invB\<close> is \<open>s (150 - l\<^sub>1) - 50\<close>: at the saturation
  \<open>50 / (150 - l\<^sub>1)\<close>, which lies strictly between 0 and 1, the segment is a straight
  line, the divisor is zero, and the first entry (target lightness 100 when
  \<open>brightness = 1\<close>, for every contrast) is the quotient \<open>0 / 0\<close>.
\<close>

lemma invB_zero_divisor:
  assumes "b0 - 2 * b1 + b2 = 0"
  shows "invB b0 b1 b2 v = None"
  using assms by (simp add: invB_def fdiv_def)

lemma BrewerSequential_degenerate:
  assumes n: "2 \<le> n" and p1: "most_saturated_in_srgb hue = Some p1"
  shows "0 < 50 / (150 - luv_l p1) \<and> 50 / (150 - luv_l p1) < 1 \<and>
         BrewerSequential n hue contrast (50 / (150 - luv_l p1)) 1 0 = None"
proof (rule bright_point_lch_defined)
  fix pb pbh pbs
  assume bp: "bright_point_lch = Some (pb, pbh, pbs)"
  define s where "s = 50 / (150 - luv_l p1)"
  show ?thesis
  proof (rule get_color_points_shape[of hue s 0 pb pbh pbs])
    fix cp p1' p2u p2v
    assume cp: "get_color_points hue s 0 pb pbh pbs = Some cp"
      and p1': "most_saturated_in_srgb hue = Some p1'" "8 < luv_l p1'"
        "luv_l p1' \<le> 116 * root 3 (92.78 / 100) - 16"
      and sh: "cp_p2 cp = \<lparr>luv_l = (1 - 0) * 100 + 0 * luv_l pb, luv_u = p2u, luv_v = p2v\<rparr>"
        "cp_q0 cp = luv_times s p1'"
        "cp_q2 cp = luv_plus (luv_times (1 - s) (cp_p2 cp)) (luv_times s p1')"
        "cp_q1 cp = luv_times 0.5 (luv_plus (cp_q0 cp) (cp_q2 cp))"
    have e: "p1' = p1" using p1 p1'(1) by simp
    define L where "L = luv_l p1"
    have L: "8 < L" "L < 100"
      using p1'(2,3) bright_lightness_below_100 unfolding e L_def by linarith+
    have s: "s * (150 - L) = 50" "0 < s" "s < 1"
      using L unfolding s_def L_def[symmetric] by (simp_all add: field_simps)
    have P2: "luv_l (cp_p2 cp) = 100" by (simp add: sh(1))
    have Q2: "luv_l (cp_q2 cp) = (1 - s) * 100 + s * L"
      unfolding sh(3) by (simp add: P2 e L_def)
    have Q1: "luv_l (cp_q1 cp) = 0.5 * (s * L + ((1 - s) * 100 + s * L))"
      unfolding sh(4) by (simp add: Q2 sh(2) e L_def)
    have dv: "luv_l (cp_q1 cp) - 2 * luv_l (cp_q2 cp) + luv_l (cp_p2 cp) = 0"
      unfolding Q1 Q2 P2 using s(1) by (simp add: algebra_simps)
    have "s * L < 50 * s + 50"
    proof -
      have "s * L \<le> s * 100" using s(2) L(2) by simp
      then show ?thesis using s(3) by linarith
    qed
    then have lt: "luv_l (cp_q1 cp) < 100"
      unfolding Q1 by (simp add: algebra_simps)
    have t: "fdiv (of_int (n - 1 - 0)) (of_int n - 1) = Some 1"
      using n by (simp add: fdiv_def)
    have "get_colormap_entry 1 (cp_p0 cp) (cp_p2 cp) (cp_q0 cp) (cp_q1 cp) (cp_q2 cp) contrast 1
        = None"
      unfolding get_colormap_entry_def target_lightness_first Let_def
      using lt by (simp add: invB_def fdiv_def dv)
    then have "BrewerSequential_color n 0 cp contrast 1 = None"
      unfolding BrewerSequential_color_def t by simp
    then have "BrewerSequential_loop n 0 cp contrast 1 [] = None"
      by (rule BrewerSequential_loop_first_None[rotated]) (use n in simp)
    then have "BrewerSequential n hue contrast s 1 0 = None"
      by (simp add: BrewerSequential_def bp cp)
    then show ?thesis using s(2,3) unfolding s_def by simp
  qed
qed

lemma q_of_hue_zero:
  "q_of 0 1 0 = - 5211999 / 26110000" "q_of 0 1 2 = 191779839 / 150132500"
  by (simp_all add: q_of_def M_def d65_u_prime_def d65_v_prime_def d65_x_def d65_y_def d65_z_def)

lemma helper_roundtrip:
  assumes "0.0905 \<le> c" "c \<le> (1::real)"
  shows "srgb_to_rgb_helper (rgb_to_srgb_helper c) = c"
proof -
  have c0: "0 < c" using assms(1) by simp
  have "c powr 1 \<le> c powr (1 / 2.4)"
    using assms c0 by (intro powr_mono') simp_all
  then have lo: "0.0905 \<le> c powr (1 / 2.4)" using assms(1) c0 by simp
  have a: "rgb_to_srgb_helper c = 1.055 * c powr (1 / 2.4) - 0.055"
    using assms(1) by (simp add: rgb_to_srgb_helper_def)
  have b: "\<not> 1.055 * c powr (1 / 2.4) - 0.055 \<le> 0.04045"
    using lo by simp
  have "(c powr (1 / 2.4)) powr 2.4 = c powr 1"
    unfolding powr_powr by simp
  then show ?thesis
    unfolding a srgb_to_rgb_helper_def using b c0 by simp
qed

lemma most_saturated_hue_zero:
  "\<exists>p1. most_saturated_in_srgb 0 = Some p1 \<and>
     luv_l p1 = 116 * root 3 (50887295 / 227294624) - 16"
proof (rule corner_hues_range)
  fix h0 h1 h2 h3 h4 h5
  assume h: "corner_hues = [Some h0, Some h1, Some h2, Some h3, Some h4, Some h5]"
    and h0: "0 < h0"
  have s: "sector [h0, h1, h2, h3, h4, h5] 0 = (2, 1, 0)"
    using h0 by (simp add: sector_def)
  have c: "clamp_ext (fdiv_ext (- q_of 0 1 0) (q_of 0 1 2)) 0 1 = Some (4439851 / 28411828)"
    unfolding q_of_hue_zero by (simp add: clamp_ext_def fdiv_ext_def clamp_def)
  have ms: "most_saturated_srgb 0 = Some [1, 0, rgb_to_srgb_helper (4439851 / 28411828)]"
    using most_saturated_srgb_q[OF h s] c by simp
  have rt: "srgb_to_rgb_helper (rgb_to_srgb_helper (4439851 / 28411828)) = 4439851 / 28411828"
    by (rule helper_roundtrip) simp_all
  show ?thesis
    using most_saturated_in_srgb_lightness[OF ms] unfolding rt by simp
qed

lemma root3_bounds:
  assumes "0 \<le> a" "a ^ 3 < y" "y < b ^ 3" "0 \<le> b"
  shows "a < root 3 y" "root 3 y < b"
proof -
  have "root 3 (a ^ 3) < root 3 y" using assms(2) by simp
  then show "a < root 3 y" using assms(1) by (simp add: real_root_power_cancel)
  have "root 3 y < root 3 (b ^ 3)" using assms(3) by simp
  then show "root 3 y < b" using assms(4) by (simp add: real_root_power_cancel)
qed

lemma lightness_hue_zero:
  "54.4365465 < 116 * root 3 (50887295 / 227294624) - 16"
  "116 * root 3 (50887295 / 227294624) - 16 < 54.4365472"
proof -
  have "(140873093 / 232000000 :: real) < root 3 (50887295 / 227294624)"
    by (rule root3_bounds(1)[where b = 1]) (simp_all add: power3_eq_cube)
  moreover have "root 3 (50887295 / 227294624) < (22011421 / 36250000 :: real)"
    by (rule root3_bounds(2)[where a = 0]) (simp_all add: power3_eq_cube)
  ultimately have "(140873093 / 232000000 :: real) < root 3 (50887295 / 227294624)"
    "root 3 (50887295 / 227294624) < (22011421 / 36250000 :: real)"
    by simp_all
  then show "54.4365465 < 116 * root 3 (50887295 / 227294624) - 16"
    "116 * root 3 (50887295 / 227294624) - 16 < 54.4365472"
    by simp_all
qed

text \<open>
  Claim C7 at a failing input: \<open>n = 9\<close>, \<open>hue = 0\<close>, \<open>contrast = 0.88\<close>,
  \<open>brightness = 1\<close>, \<open>warmth = 0\<close>, and the saturation \<open>50 / (150 - l\<^sub>1)\<close> where the
  second segment degenerates.  For \<open>hue = 0\<close> this saturation lies between
  \<open>0.52321256\<close> and \<open>0.52321258\<close> (the nearest \<open>float\<close> is \<open>0.52321255f\<close>), and
  the map has no finite lightness sequence there: \<open>invB\<close> divides zero by zero.
\<close>

theorem BrewerSequential_degenerate_saturation:
  "\<exists>p1. most_saturated_in_srgb 0 = Some p1
      \<and> 0.52321256 < 50 / (150 - luv_l p1) \<and> 50 / (150 - luv_l p1) < 0.52321258
      \<and> BrewerSequential 9 0 0.88 (50 / (150 - luv_l p1)) 1 0 = None"
proof -
  obtain p1 where p1: "most_saturated_in_srgb 0 = Some p1"
    and l: "luv_l p1 = 116 * root 3 (50887295 / 227294624) - 16"
    using most_saturated_hue_zero by blast
  have b: "54.4365465 < luv_l p1" "luv_l p1 < 54.4365472"
    unfolding l by (rule lightness_hue_zero)+
  have "0.52321256 < 50 / (150 - luv_l p1)"
    using b by (simp add: field_simps)
  moreover have "50 / (150 - luv_l p1) < 0.52321258"
    using b by (simp add: field_simps)
  moreover have "BrewerSequential 9 0 0.88 (50 / (150 - luv_l p1)) 1 0 = None"
    using BrewerSequential_degenerate[OF _ p1, of 9 "0.88"] by simp
  ultimately show ?thesis using p1 by blast
qed

section \<open>Two entries, and a black endpoint\<close>

lemma convert_colormap_entry_black:
  assumes "luv_l c = 0"
  shows "convert_colormap_entry c = None"
  using assms by (simp add: convert_colormap_entry_def luv_to_xyz_def fdiv_def)

lemma BrewerSequential_loop_last_None:
  assumes "i < n"
    and "(do { c \<leftarrow> BrewerSequential_color n (n - 1) cp contrast brightness;
              convert_colormap_entry c }) = None"
  shows "BrewerSequential_loop n i cp contrast brightness colormap = None"
  using assms
proof (induction n i cp contrast brightness colormap rule: BrewerSequential_loop.induct)
  case (1 n i cp contrast brightness colormap)
  show ?case
  proof (cases "i = n - 1")
    case True
    have "BrewerSequential_color n i cp contrast brightness = None \<or>
      (\<exists>c. BrewerSequential_color n i cp contrast brightness = Some c \<and> convert_colormap_entry c = None)"
      using "1.prems"(2) True
      by (cases "BrewerSequential_color n i cp contrast brightness") auto
    then show ?thesis
      using "1.prems"(1) by (subst BrewerSequential_loop.simps) auto
  next
    case False
    then have lt: "i + 1 < n" using "1.prems"(1) by simp
    have ih: "BrewerSequential_loop n (i + 1) cp contrast brightness cm = None"
      if "BrewerSequential_color n i cp contrast brightness = Some c"
        "convert_colormap_entry c = Some bytes" "cm = colormap @ bytes" for c bytes cm
      using "1.IH"[OF "1.prems"(1) that(1) that(2) lt "1.prems"(2)] that(3) by simp
    show ?thesis
    proof (cases "BrewerSequential_color n i cp contrast brightness")
      case None
      then show ?thesis using "1.prems"(1) by (subst BrewerSequential_loop.simps) simp
    next
      case (Some c)
      show ?thesis
      proof (cases "convert_colormap_entry c")
        case None
        then show ?thesis using "1.prems"(1) Some by (subst BrewerSequential_loop.simps) simp
      next
        case (Some bytes)
        then show ?thesis
          using "1.prems"(1) \<open>BrewerSequential_color n i cp contrast brightness = Some c\<close>
            ih[OF \<open>BrewerSequential_color n i cp contrast brightness = Some c\<close> Some refl]
          by (subst BrewerSequential_loop.simps) simp
      qed
    qed
  qed
qed

lemma target_lightness_full_contrast: "target_lightness 0 1 brightness = 0"
  by (simp add: target_lightness_def)

lemma entry_lightness_zero:
  assumes "0 \<le> Q0" "Q0 \<le> Q1"
  shows "entry_lightness Q0 Q1 Q2 P2 0 = 0"
proof -
  define m where "m = - (Q0 * Q0) / (Q1 - 2 * Q0)"
  have "m \<le> 0" if "0 < Q1 - 2 * Q0"
    unfolding m_def using that by (simp add: divide_le_0_iff)
  then have "(if 0 < Q1 - 2 * Q0 then max 0 m else 0) = 0"
    by simp
  moreover have "0 \<le> Q1" using assms by linarith
  ultimately show ?thesis
    unfolding entry_lightness_def m_def by simp
qed

text \<open>
  With \<open>contrast = 1\<close> the last entry of a sequential map has the target lightness 0.
  Its colour is black, and \<open>luv_to_xyz\<close> divides \<open>u\<close> and \<open>v\<close> by \<open>13 l = 0\<close>: the map has
  no finite result, for any number of entries.
\<close>

lemma BrewerSequential_full_contrast:
  assumes "2 \<le> n" "0 \<le> saturation" "saturation \<le> 1" "0 \<le> warmth" "warmth \<le> 1"
  shows "BrewerSequential n hue 1 saturation brightness warmth = None"
proof (rule bright_point_lch_defined)
  fix pb pbh pbs
  assume bp: "bright_point_lch = Some (pb, pbh, pbs)"
    and pb: "luv_l pb = 116 * root 3 (92.78 / 100) - 16"
  show ?thesis
  proof (cases "get_color_points hue saturation warmth pb pbh pbs")
    case None
    then show ?thesis by (simp add: BrewerSequential_def bp)
  next
    case (Some cp)
    note ord = color_points_order[OF assms(2-5) pb Some]
    have t: "fdiv (of_int (n - 1 - (n - 1))) (of_int n - 1) = Some 0"
      using assms(1) by (simp add: fdiv_def)
    have "convert_colormap_entry c = None"
      if "get_colormap_entry 0 (cp_p0 cp) (cp_p2 cp) (cp_q0 cp) (cp_q1 cp) (cp_q2 cp) 1 brightness
            = Some c" for c
    proof -
      have "luv_l c = 0"
        unfolding get_colormap_entry_lightness[OF ord that] target_lightness_full_contrast
        by (rule entry_lightness_zero[OF ord(2,3)])
      then show ?thesis by (rule convert_colormap_entry_black)
    qed
    then have last: "(do { c \<leftarrow> BrewerSequential_color n (n - 1) cp 1 brightness;
              convert_colormap_entry c }) = None"
      unfolding BrewerSequential_color_def t
      by (cases "get_colormap_entry 0 (cp_p0 cp) (cp_p2 cp) (cp_q0 cp) (cp_q1 cp) (cp_q2 cp) 1
            brightness") simp_all
    have "BrewerSequential_loop n 0 cp 1 brightness [] = None"
      by (rule BrewerSequential_loop_last_None[OF _ last]) (use assms(1) in simp)
    then show ?thesis by (simp add: BrewerSequential_def bp Some)
  qed
qed

text \<open>
  Claim C8 at a failing input: \<open>n = 2\<close>, \<open>hue = 0\<close>, \<open>contrast = 1\<close>,
  \<open>saturation = 1\<close>, \<open>brightness = 1\<close>, \<open>warmth = 0\<close>.  The second entry is the
  endpoint \<open>t = 0\<close>, which is black, and its conversion divides zero by zero.
\<close>

theorem BrewerSequential_two_black_endpoint:
  "BrewerSequential 2 0 1 1 1 0 = None"
  by (rule BrewerSequential_full_contrast) simp_all

text \<open>
  For \<open>n = 2\<close> the divisor \<open>n - 1\<close> is 1: the two passes of the loop sample the profile
  at \<open>t = 1\<close> and at \<open>t = 0\<close>, and the map is the bytes of these two colours.
\<close>

lemma BrewerSequential_loop_two:
  "BrewerSequential_loop 2 0 cp contrast brightness [] =
     do {
       c0 \<leftarrow> get_colormap_entry 1 (cp_p0 cp) (cp_p2 cp) (cp_q0 cp) (cp_q1 cp) (cp_q2 cp) contrast brightness;
       bytes0 \<leftarrow> convert_colormap_entry c0;
       c1 \<leftarrow> get_colormap_entry 0 (cp_p0 cp) (cp_p2 cp) (cp_q0 cp) (cp_q1 cp) (cp_q2 cp) contrast brightness;
       bytes1 \<leftarrow> convert_colormap_entry c1;
       Some (bytes0 @ bytes1)
     }"
  by (simp add: BrewerSequential_loop.simps BrewerSequential_color_def fdiv_def)


section \<open>Diverging maps: the middle entry\<close>

lemma most_saturated_in_srgb_chroma:
  assumes "most_saturated_in_srgb h = Some c"
  shows "luv_u c \<noteq> 0 \<or> luv_v c \<noteq> 0"
proof (rule most_saturated_in_srgb_total[of h])
  fix sr sg sb r g b x y z :: real
  assume rng: "0 \<le> r" "r \<le> 1" "0 \<le> g" "g \<le> 1" "0 \<le> b" "b \<le> 1"
    and sr: "sr = 0 \<or> sg = 0 \<or> sb = 0" "sr = 1 \<or> sg = 1 \<or> sb = 1"
      "(sr = 0 \<longrightarrow> r = 0) \<and> (sg = 0 \<longrightarrow> g = 0) \<and> (sb = 0 \<longrightarrow> b = 0)"
      "(sr = 1 \<longrightarrow> r = 1) \<and> (sg = 1 \<longrightarrow> g = 1) \<and> (sb = 1 \<longrightarrow> b = 1)"
    and xyz: "rgb_to_xyz r g b = (x, y, z)"
    and y: "7.22 \<le> y" and S: "0 < x + 15 * y + 3 * z"
    and luv: "most_saturated_in_srgb h =
       Some \<lparr>luv_l = 116 * root 3 (y / 100) - 16,
             luv_u = 13 * (116 * root 3 (y / 100) - 16) * (4 * x / (x + 15 * y + 3 * z) - d65_u_prime),
             luv_v = 13 * (116 * root 3 (y / 100) - 16) * (9 * y / (x + 15 * y + 3 * z) - d65_v_prime)\<rparr>"
  have zero: "r = 0 \<or> g = 0 \<or> b = 0" and one: "r = 1 \<or> g = 1 \<or> b = 1"
    using sr by blast+
  have l: "8 < 116 * root 3 (y / 100) - 16"
    by (rule lightness_above_8) (use y in simp)
  define S where "S = x + 15 * y + 3 * z"
  have Spos: "0 < S" using S by (simp add: S_def)
  have xe: "x = 41.24 * r + 35.76 * g + 18.05 * b"
    and ye: "y = 21.26 * r + 71.52 * g + 7.22 * b"
    and ze: "z = 1.93 * r + 11.92 * g + 95.05 * b"
    using xyz by (auto simp add: rgb_to_xyz_def)
  have False if u0: "4 * x / S = d65_u_prime" and v0: "9 * y / S = d65_v_prime"
  proof -
    have "4 * x = 95047 / 480424 * S" "9 * y = 28125 / 60053 * S"
      using u0 v0 Spos by (simp_all add: d65_u_prime_val d65_v_prime_val field_simps)
    then have e: "4 * x = 95047 / 480424 * (x + 15 * y + 3 * z)"
      "9 * y = 28125 / 60053 * (x + 15 * y + 3 * z)"
      by (simp_all add: S_def)
    have e1: "193348671 / 208880000 * r - 31284636 / 37533125 * g - 44252277 / 480424000 * b = 0"
      using e(1) unfolding xe ye ze by (simp add: algebra_simps)
    have e2: "- (5211999 / 26110000) * r - 40443219 / 37533125 * g + 191779839 / 150132500 * b = 0"
      using e(2) unfolding xe ye ze by (simp add: algebra_simps)
    show False
      using zero one rng e1 e2 by argo
  qed
  then have "4 * x / S - d65_u_prime \<noteq> 0 \<or> 9 * y / S - d65_v_prime \<noteq> 0"
    by auto
  then have "luv_u c \<noteq> 0 \<or> luv_v c \<noteq> 0"
    using assms l unfolding luv S_def by auto
  then show ?thesis .
qed

lemma luv_saturation_pos:
  assumes "u \<noteq> 0 \<or> v \<noteq> 0"
  shows "0 < luv_saturation l u v"
proof -
  have "0 < u\<^sup>2 + v\<^sup>2" using assms by (auto simp add: sum_power2_gt_zero_iff)
  then have "0 < hypot u v" by (simp add: hypot_def)
  moreover have "0 < max l (1 / 10 ^ 8)" by (simp add: max_def)
  ultimately show ?thesis
    unfolding luv_saturation_def lch_saturation_def by (rule divide_pos_pos)
qed

lemma Smax_pos:
  assumes "0 < l" "l < 100"
  shows "\<exists>sm. Smax l h = Some sm \<and> 0 < sm"
proof (rule Smax_total[of h l])
  fix c
  assume c: "most_saturated_in_srgb h = Some c" "8 < luv_l c" "luv_l c < 100"
    and sm: "Smax l h = Some ((if luv_l c < l then (100 - l) / (100 - luv_l c) else l / luv_l c)
                        * luv_saturation (luv_l c) (luv_u c) (luv_v c))"
  have s: "0 < luv_saturation (luv_l c) (luv_u c) (luv_v c)"
    by (rule luv_saturation_pos[OF most_saturated_in_srgb_chroma[OF c(1)]])
  have "0 < (if luv_l c < l then (100 - l) / (100 - luv_l c) else l / luv_l c)"
    using assms c(2,3) by simp
  then show ?thesis unfolding sm using s by simp
qed

lemma get_colormap_entry_cases:
  assumes ord: "luv_l q0 \<le> luv_l q1" "luv_l q1 \<le> luv_l q2" "luv_l q2 \<le> luv_l p2"
    and e: "get_colormap_entry t p0 p2 q0 q1 q2 contrast brightness = Some c"
  shows "\<exists>x. (target_lightness t contrast brightness \<le> luv_l q1 \<and> c = B p0 q0 q1 x)
           \<or> (luv_l q1 < target_lightness t contrast brightness \<and> c = B q1 q2 p2 x)"
proof -
  define l where "l = target_lightness t contrast brightness"
  show ?thesis
  proof (cases "l \<le> luv_l q1")
    case True
    obtain x where x: "invB (luv_l p0) (luv_l q0) (luv_l q1) l = Some x"
      and c: "c = (if 0.5 * x \<le> 0.5 then B p0 q0 q1 (2 * (0.5 * x)) else B q1 q2 p2 (2 * (0.5 * x - 0.5)))"
      using e True unfolding get_colormap_entry_def l_def[symmetric]
      by (auto simp add: Let_def Option.bind_eq_Some_conv)
    have "x \<le> 1" by (rule invB_le_one[OF x ord(1) True])
    then have "c = B p0 q0 q1 x" using c by simp
    then show ?thesis using True unfolding l_def by blast
  next
    case False
    then have lQ: "luv_l q1 < l" by simp
    obtain x where x: "invB (luv_l q1) (luv_l q2) (luv_l p2) l = Some x"
      and c: "c = (if 0.5 * x + 0.5 \<le> 0.5 then B p0 q0 q1 (2 * (0.5 * x + 0.5))
                   else B q1 q2 p2 (2 * (0.5 * x + 0.5 - 0.5)))"
      using e False unfolding get_colormap_entry_def l_def[symmetric]
      by (auto simp add: Let_def Option.bind_eq_Some_conv)
    have "0 < x" by (rule invB_pos[OF x ord(2) ord(3) lQ])
    then have "c = B q1 q2 p2 x" using c by simp
    then show ?thesis using lQ unfolding l_def by blast
  qed
qed

text \<open>
  Full saturation, no warmth: an entry with a target lightness strictly between 0 and
  100 has that lightness and is a positive multiple of the most saturated colour in
  \<open>u\<close> and \<open>v\<close>.
\<close>

lemma saturated_entry:
  assumes P: "8 < luv_l P" "luv_l P < 100"
    and l: "0 < target_lightness t contrast brightness" "target_lightness t contrast brightness < 100"
    and e: "get_colormap_entry t \<lparr>luv_l = 0, luv_u = 0, luv_v = 0\<rparr> \<lparr>luv_l = 100, luv_u = 0, luv_v = 0\<rparr>
              P P P contrast brightness = Some c"
  shows "\<exists>wt. 0 < wt \<and> luv_l c = target_lightness t contrast brightness
           \<and> luv_u c = wt * luv_u P \<and> luv_v c = wt * luv_v P"
proof -
  define l where "l = target_lightness t contrast brightness"
  define L where "L = luv_l P"
  have ord: "luv_l \<lparr>luv_l = 0, luv_u = 0, luv_v = 0\<rparr> = 0" "0 \<le> luv_l P" "luv_l P \<le> luv_l P"
    "luv_l P \<le> luv_l P" "luv_l P \<le> luv_l \<lparr>luv_l = 100, luv_u = 0, luv_v = 0\<rparr>"
    using P by simp_all
  have "luv_l c = entry_lightness L L L 100 l"
    using get_colormap_entry_lightness[OF ord e] by (simp add: l_def L_def)
  also have "\<dots> = l"
    using P unfolding entry_lightness_def L_def by simp
  finally have lc: "luv_l c = l" .
  obtain x where x: "(l \<le> L \<and> c = B \<lparr>luv_l = 0, luv_u = 0, luv_v = 0\<rparr> P P x)
      \<or> (L < l \<and> c = B P P \<lparr>luv_l = 100, luv_u = 0, luv_v = 0\<rparr> x)"
    using get_colormap_entry_cases[OF ord(3,4,5) e] unfolding l_def L_def by blast
  show ?thesis
  proof (cases "l \<le> L")
    case True
    then have c: "c = B \<lparr>luv_l = 0, luv_u = 0, luv_v = 0\<rparr> P P x" using x by auto
    define wt where "wt = 2 * (1 - x) * x + x * x"
    have "luv_l c = wt * L" "luv_u c = wt * luv_u P" "luv_v c = wt * luv_v P"
      unfolding c B_sel wt_def L_def by (simp_all add: algebra_simps)
    moreover from this(1) lc have "wt * L = l" by simp
    moreover have "0 < L" using P unfolding L_def by simp
    ultimately have "0 < wt"
      using l(1) unfolding l_def[symmetric] by (metis zero_less_mult_pos2)
    then show ?thesis
      using lc \<open>luv_u c = wt * luv_u P\<close> \<open>luv_v c = wt * luv_v P\<close> unfolding l_def by blast
  next
    case False
    then have c: "c = B P P \<lparr>luv_l = 100, luv_u = 0, luv_v = 0\<rparr> x" using x by auto
    define wt where "wt = (1 - x) * (1 - x) + 2 * (1 - x) * x"
    have w: "x * x = 1 - wt" unfolding wt_def by algebra
    have "luv_l c = wt * L + (1 - wt) * 100" "luv_u c = wt * luv_u P" "luv_v c = wt * luv_v P"
      unfolding c B_sel w[symmetric] wt_def L_def by (simp_all add: algebra_simps)
    moreover from this(1) lc have "wt * (100 - L) = 100 - l" by (simp add: algebra_simps)
    moreover have "0 < 100 - L" using P unfolding L_def by simp
    moreover have "0 < 100 - l" using l(2) unfolding l_def by simp
    ultimately have "0 < wt"
      by (metis zero_less_mult_pos2)
    then show ?thesis
      using lc \<open>luv_u c = wt * luv_u P\<close> \<open>luv_v c = wt * luv_v P\<close> unfolding l_def by blast
  qed
qed

lemma target_lightness_half: 
  "0 < target_lightness 1 0 (1 / 2)" "target_lightness 1 0 (1 / 2) < 100"
proof -
  have "(0.2::real) powr (1 / 2) < 0.2 powr 0"
    by (rule powr_less_mono') simp_all
  then have a: "(0.2::real) powr (1 / 2) < 1" by simp
  have "(0.2::real) powr 1 < 0.2 powr (1 / 2)"
    by (rule powr_less_mono') simp_all
  then have b: "(0.2::real) < 0.2 powr (1 / 2)" by simp
  show "0 < target_lightness 1 0 (1 / 2)" "target_lightness 1 0 (1 / 2) < 100"
    using a b by (simp_all add: target_lightness_def)
qed

lemma BrewerDiverging_points_defined:
  obtains pb pbs cp0 cp1 pbh where
    "bright_point_lch = Some (pb, pbh, pbs)"
    "get_color_points hue saturation warmth pb pbh pbs = Some cp0"
    "get_color_points (if twopi \<le> hue + divergence then hue + divergence - twopi else hue + divergence)
        saturation warmth pb pbh pbs = Some cp1"
    "BrewerDiverging_points hue divergence saturation warmth = Some (cp0, cp1, pbh)"
proof (rule bright_point_lch_defined)
  fix pb pbh pbs
  assume bp: "bright_point_lch = Some (pb, pbh, pbs)"
  define hue1 where "hue1 = (if twopi \<le> hue + divergence then hue + divergence - twopi else hue + divergence)"
  obtain cp0 where cp0: "get_color_points hue saturation warmth pb pbh pbs = Some cp0"
    by (rule get_color_points_shape[of hue saturation warmth pb pbh pbs])
  obtain cp1 where cp1: "get_color_points hue1 saturation warmth pb pbh pbs = Some cp1"
    by (rule get_color_points_shape[of hue1 saturation warmth pb pbh pbs])
  have "BrewerDiverging_points hue divergence saturation warmth = Some (cp0, cp1, pbh)"
    unfolding BrewerDiverging_points_def Let_def hue1_def[symmetric] by (simp add: bp cp0 cp1)
  then show thesis using that[OF bp cp0 cp1[unfolded hue1_def]] by simp
qed

text \<open>
  Claim C4, amended.  For odd \<open>n\<close>, with \<open>c0\<close> and \<open>c1\<close> the endpoints (at \<open>t = 1\<close>) of
  the two halves: for \<open>n \<le> 9\<close> the middle entry has the hue \<open>pbh\<close> of the bright point,
  the average of the two lightnesses, and the chroma of that lightness times the
  minimum of \<open>Smax\<close> and the average of the two saturations \<^emph>\<open>multiplied by warmth\<close>;
  for \<open>n > 9\<close> it is the average of the two colours.
\<close>

theorem BrewerDiverging_middle_entry:
  assumes "n mod 2 = 1"
    and "BrewerDiverging_points hue divergence saturation warmth = Some (cp0, cp1, pbh)"
    and "get_colormap_entry 1 (cp_p0 cp0) (cp_p2 cp0) (cp_q0 cp0) (cp_q1 cp0) (cp_q2 cp0)
            contrast brightness = Some c0"
    and "get_colormap_entry 1 (cp_p0 cp1) (cp_p2 cp1) (cp_q0 cp1) (cp_q1 cp1) (cp_q2 cp1)
            contrast brightness = Some c1"
  shows "\<exists>pb pbs sm.
     bright_point_lch = Some (pb, pbh, pbs) \<and>
     Smax ((luv_l c0 + luv_l c1) / 2) pbh = Some sm \<and>
     BrewerDiverging_entry n (n div 2) hue divergence contrast saturation brightness warmth =
       Some (if n \<le> 9 then
               \<lparr>luv_l = (luv_l c0 + luv_l c1) / 2,
                luv_u = (luv_l c0 + luv_l c1) / 2
                          * min sm ((luv_saturation (luv_l c0) (luv_u c0) (luv_v c0)
                                      + luv_saturation (luv_l c1) (luv_u c1) (luv_v c1)) / 2 * warmth)
                          * cos pbh,
                luv_v = (luv_l c0 + luv_l c1) / 2
                          * min sm ((luv_saturation (luv_l c0) (luv_u c0) (luv_v c0)
                                      + luv_saturation (luv_l c1) (luv_u c1) (luv_v c1)) / 2 * warmth)
                          * sin pbh\<rparr>
             else luv_times 0.5 (luv_plus c0 c1))"
proof -
  obtain pb pbs where bp: "bright_point_lch = Some (pb, pbh, pbs)"
    using assms(2) unfolding BrewerDiverging_points_def
    by (auto simp add: Let_def Option.bind_eq_Some_conv)
  define cl where "cl = (luv_l c0 + luv_l c1) / 2"
  define sn where "sn = (luv_saturation (luv_l c0) (luv_u c0) (luv_v c0)
                          + luv_saturation (luv_l c1) (luv_u c1) (luv_v c1)) / 2 * warmth"
  obtain sm where sm: "Smax cl pbh = Some sm"
    by (rule Smax_total[of pbh cl])
  have cl': "0.5 * (luv_l c0 + luv_l c1) = cl" by (simp add: cl_def)
  have sn': "0.5 * (luv_saturation (luv_l c0) (luv_u c0) (luv_v c0)
                + luv_saturation (luv_l c1) (luv_u c1) (luv_v c1)) * warmth = sn"
    by (simp add: sn_def)
  have "BrewerDiverging_entry n (n div 2) hue divergence contrast saturation brightness warmth =
       Some (if n \<le> 9 then
               \<lparr>luv_l = cl, luv_u = cl * min sm sn * cos pbh, luv_v = cl * min sm sn * sin pbh\<rparr>
             else luv_times 0.5 (luv_plus c0 c1))"
    unfolding BrewerDiverging_entry_def assms(2) BrewerDiverging_color_def Option.bind.bind_lunit
      prod.case assms(3,4) Let_def cl' sn' sm
    using assms(1)
    by (simp add: lch_to_luv_def lch_chroma_def mult.commute)
  then show ?thesis
    using bp sm unfolding cl_def sn_def by blast
qed

text \<open>
  The parameters of the counterexample and of the witness: \<open>n = 3\<close>, \<open>hue = 0\<close>,
  \<open>divergence = 0\<close>, \<open>contrast = 0\<close>, \<open>saturation = 1\<close>, \<open>brightness = 1/2\<close>,
  \<open>warmth = 0\<close>.  Both halves have the same colour points; the endpoint of each at
  \<open>t = 1\<close> has the lightness \<open>125 - 125 \<sqdot> 0.2\<^sup>1\<^sup>/\<^sup>2\<close> and a positive saturation.
\<close>

lemma diverging_example:
  obtains cp pbh c wt P sm where
    "BrewerDiverging_points 0 0 1 0 = Some (cp, cp, pbh)"
    "get_colormap_entry 1 (cp_p0 cp) (cp_p2 cp) (cp_q0 cp) (cp_q1 cp) (cp_q2 cp) 0 (1 / 2) = Some c"
    "luv_l c = target_lightness 1 0 (1 / 2)"
    "0 < luv_saturation (luv_l c) (luv_u c) (luv_v c)"
    "Smax (target_lightness 1 0 (1 / 2)) pbh = Some sm" "0 < sm"
proof (rule bright_point_lch_defined)
  fix pb pbh pbs
  assume bp: "bright_point_lch = Some (pb, pbh, pbs)"
  show thesis
  proof (rule color_points_saturated[of 0 pb pbh pbs])
    fix cp P
    assume cp: "get_color_points 0 1 0 pb pbh pbs = Some cp"
      and P: "most_saturated_in_srgb 0 = Some P" "8 < luv_l P" "luv_l P < 100"
      and sh: "cp_p0 cp = \<lparr>luv_l = 0, luv_u = 0, luv_v = 0\<rparr>" "cp_q0 cp = P" "cp_q1 cp = P"
        "cp_q2 cp = P" "cp_p2 cp = \<lparr>luv_l = 100, luv_u = 0, luv_v = 0\<rparr>"
    have "\<not> twopi \<le> 0 + 0" by (simp add: twopi_def not_le)
    then have pts: "BrewerDiverging_points 0 0 1 0 = Some (cp, cp, pbh)"
      unfolding BrewerDiverging_points_def Let_def by (simp add: bp cp)
    obtain c where c: "get_colormap_entry 1 (cp_p0 cp) (cp_p2 cp) (cp_q0 cp) (cp_q1 cp) (cp_q2 cp)
        0 (1 / 2) = Some c"
      using get_colormap_entry_defined[of "cp_p0 cp" "cp_q0 cp" "cp_q1 cp" "cp_q2 cp" "cp_p2 cp"
          1 0 "1 / 2"] P(2,3)
      by (auto simp add: sh)
    obtain wt where wt: "0 < wt" "luv_l c = target_lightness 1 0 (1 / 2)"
        "luv_u c = wt * luv_u P" "luv_v c = wt * luv_v P"
      using saturated_entry[OF P(2,3) target_lightness_half c[unfolded sh]] by blast
    have "luv_u P \<noteq> 0 \<or> luv_v P \<noteq> 0" by (rule most_saturated_in_srgb_chroma[OF P(1)])
    then have "luv_u c \<noteq> 0 \<or> luv_v c \<noteq> 0" using wt by simp
    then have sat: "0 < luv_saturation (luv_l c) (luv_u c) (luv_v c)"
      by (rule luv_saturation_pos)
    obtain sm where sm: "Smax (target_lightness 1 0 (1 / 2)) pbh = Some sm" "0 < sm"
      using Smax_pos[OF target_lightness_half] by blast
    show thesis by (rule that[OF pts c wt(2) sat sm])
  qed
qed

text \<open>
  Claim C4, as stated, fails: the source multiplies the averaged saturation by
  \<open>warmth\<close>.  With \<open>warmth = 0\<close> the middle entry of the code is gray, while the
  claimed colour has a positive chroma.
\<close>

theorem BrewerDiverging_middle_claimed_counterexample:
  "BrewerDiverging_entry 3 1 0 0 0 1 (1 / 2) 0 \<noteq> BrewerDiverging_middle_claimed 3 0 0 0 1 (1 / 2) 0"
proof (rule diverging_example)
  fix cp pbh c sm
  assume pts: "BrewerDiverging_points 0 0 1 0 = Some (cp, cp, pbh)"
    and c: "get_colormap_entry 1 (cp_p0 cp) (cp_p2 cp) (cp_q0 cp) (cp_q1 cp) (cp_q2 cp) 0 (1 / 2) = Some c"
    and l: "luv_l c = target_lightness 1 0 (1 / 2)"
    and sat: "0 < luv_saturation (luv_l c) (luv_u c) (luv_v c)"
    and sm: "Smax (target_lightness 1 0 (1 / 2)) pbh = Some sm" "0 < sm"
  define L where "L = target_lightness 1 0 (1 / 2)"
  define cs where "cs = luv_saturation L (luv_u c) (luv_v c)"
  have L: "0 < L" unfolding L_def by (rule target_lightness_half)
  have code: "BrewerDiverging_entry 3 1 0 0 0 1 (1 / 2) 0 = Some \<lparr>luv_l = L, luv_u = 0, luv_v = 0\<rparr>"
    unfolding BrewerDiverging_entry_def pts BrewerDiverging_color_def
    using sm(2)
    by (simp add: c l sm(1)[folded L_def] Let_def lch_to_luv_def lch_chroma_def L_def[symmetric])
  have m: "0 < min sm cs" using sm(2) sat unfolding cs_def L_def l by simp
  have claimed: "BrewerDiverging_middle_claimed 3 0 0 0 1 (1 / 2) 0 =
      Some \<lparr>luv_l = L, luv_u = L * min sm cs * cos pbh, luv_v = L * min sm cs * sin pbh\<rparr>"
    unfolding BrewerDiverging_middle_claimed_def pts
    by (simp add: c l sm(1)[folded L_def] Let_def L_def[symmetric] cs_def[symmetric])
  have "cos pbh \<noteq> 0 \<or> sin pbh \<noteq> 0"
    using sin_zero_abs_cos_one[of pbh] by auto
  moreover have "0 < L * min sm cs" using L m by (rule mult_pos_pos)
  then have "L * min sm cs \<noteq> 0" by (rule less_imp_neq[THEN not_sym])
  ultimately have "L * min sm cs * cos pbh \<noteq> 0 \<or> L * min sm cs * sin pbh \<noteq> 0"
    using mult_eq_0_iff[of "L * min sm cs" "cos pbh"] mult_eq_0_iff[of "L * min sm cs" "sin pbh"]
    by blast
  then show ?thesis unfolding code claimed by auto
qed

theorem BrewerDiverging_middle_entry_witness:
  "\<exists>cp0 cp1 pbh c0 c1.
     (3::int) mod 2 = 1 \<and>
     BrewerDiverging_points 0 0 1 0 = Some (cp0, cp1, pbh) \<and>
     get_colormap_entry 1 (cp_p0 cp0) (cp_p2 cp0) (cp_q0 cp0) (cp_q1 cp0) (cp_q2 cp0) 0 (1 / 2) = Some c0 \<and>
     get_colormap_entry 1 (cp_p0 cp1) (cp_p2 cp1) (cp_q0 cp1) (cp_q1 cp1) (cp_q2 cp1) 0 (1 / 2) = Some c1 \<and>
     (\<exists>pb pbs sm.
       bright_point_lch = Some (pb, pbh, pbs) \<and>
       Smax ((luv_l c0 + luv_l c1) / 2) pbh = Some sm \<and>
       BrewerDiverging_entry 3 (3 div 2) 0 0 0 1 (1 / 2) 0 =
         Some (if (3::int) \<le> 9 then
                 \<lparr>luv_l = (luv_l c0 + luv_l c1) / 2,
                  luv_u = (luv_l c0 + luv_l c1) / 2
                            * min sm ((luv_saturation (luv_l c0) (luv_u c0) (luv_v c0)
                                        + luv_saturation (luv_l c1) (luv_u c1) (luv_v c1)) / 2 * 0)
                            * cos pbh,
                  luv_v = (luv_l c0 + luv_l c1) / 2
                            * min sm ((luv_saturation (luv_l c0) (luv_u c0) (luv_v c0)
                                        + luv_saturation (luv_l c1) (luv_u c1) (luv_v c1)) / 2 * 0)
                            * sin pbh\<rparr>
               else luv_times 0.5 (luv_plus c0 c1)))"
proof (rule diverging_example)
  fix cp pbh c
  assume pts: "BrewerDiverging_points 0 0 1 0 = Some (cp, cp, pbh)"
    and c: "get_colormap_entry 1 (cp_p0 cp) (cp_p2 cp) (cp_q0 cp) (cp_q1 cp) (cp_q2 cp) 0 (1 / 2) = Some c"
  have odd: "(3::int) mod 2 = 1" by simp
  note inst = BrewerDiverging_middle_entry[OF odd pts c c]
  show ?thesis
    by (rule exI[of _ cp], rule exI[of _ cp], rule exI[of _ pbh], rule exI[of _ c],
        rule exI[of _ c], intro conjI odd pts c inst)
qed


end
